theory Spec2Isabelle
  imports Main "HOL-Library.Signed_Division"
begin

section \<open>Memory and matrix descriptors\<close>

text \<open>
  Memory is addressed in units of one \<open>float\<close>: an address is the index of a cell, and
  \<open>p + i\<close> is the C expression \<open>&p[i]\<close>. The null pointer is address 0. The element
  type \<open>float\<close> is the type parameter \<open>'a\<close>: the code only uses its \<open>0\<close>, \<open>+\<close>, \<open>*\<close>,
  \<open>-\<close>, \<open>fabs\<close> and \<open>>\<close>, and a statement assumes of them only the laws that its
  type class or its hypotheses name, so that they may round. Index arithmetic on C
  \<open>int\<close> values is unbounded (signed overflow is undefined in C); the product
  \<open>height * width\<close> that sizes a buffer wraps around at 32 bits, as the compiled
  code does (\<open>int32\<close>), and conversions to \<open>size_t\<close> and to \<open>unsigned\<close> are written
  out as \<open>mod 2 ^ 64\<close> and \<open>mod 2 ^ 32\<close>.
\<close>

type_synonym addr = int

definition NULL :: addr where
  "NULL = 0"

definition sizeof_float :: nat where
  "sizeof_float = 4"

text \<open>The value of a 32-bit \<open>int\<close> expression: two's complement wrap-around.\<close>

definition int32 :: "int \<Rightarrow> int" where
  "int32 x = (x + 2 ^ 31) mod 2 ^ 32 - 2 ^ 31"

text \<open>
  Modelled from the spec: \<open>matmult.cu\<close> works on a descriptor type \<open>Matrix\<close>, passed by
  value, whose declaration is missing. The spec's data model gives its fields (height,
  width, stride, size in bytes, elements), which are the fields \<open>matmult.cu\<close> reads and
  writes. The header declares the descriptor \<open>Mat\<close> with two more fields, recording
  which allocator owns the buffer.
\<close>

record Matrix =
  width :: int
  height :: int
  size_bytes :: nat
  stride :: int
  elements :: addr

record Mat = Matrix +
  elements_malloc :: addr
  elements_cudaMalloc :: addr

text \<open>Thread block size (\<open>#define BLOCK_SIZE 4\<close>).\<close>

definition BLOCK_SIZE :: nat where
  "BLOCK_SIZE = 4"

text \<open>
  An address space: its cells, and a bump allocator (\<open>brk\<close> is the first address never
  handed out, \<open>live\<close> the bases of the blocks not yet freed). Allocation never fails
  in this model.
\<close>

record 'a mem =
  cell :: "addr \<Rightarrow> 'a"
  brk :: addr
  live :: "addr list"

text \<open>
  The machine: host memory, device memory, and the contents of the on-chip scratch
  memory that a thread block finds when it starts (not initialised by the code).
\<close>

record 'a machine =
  host :: "'a mem"
  device :: "'a mem"
  scratch :: "addr \<Rightarrow> 'a"

text \<open>
  A call either returns or stops at a failed \<open>assert\<close>; both carry the state reached.
\<close>

datatype 's outcome = Return 's | AssertFail 's

subsection \<open>Library calls\<close>

text \<open>
  \<open>malloc\<close>/\<open>cudaMalloc\<close>, \<open>cudaFree\<close>, \<open>memset\<close>/\<open>cudaMemset\<close> and
  \<open>memcpy\<close>/\<open>cudaMemcpy\<close> on one address space. Sizes are in bytes; a call moves
  \<open>nbytes div sizeof(float)\<close> whole cells.
\<close>

definition malloc_cells :: "nat \<Rightarrow> 'a mem \<Rightarrow> addr \<times> 'a mem" where
  "malloc_cells nbytes m =
     (brk m, m\<lparr>brk := brk m + int (nbytes div sizeof_float), live := brk m # live m\<rparr>)"

definition free_cells :: "addr \<Rightarrow> 'a mem \<Rightarrow> 'a mem" where
  "free_cells p m = m\<lparr>live := removeAll p (live m)\<rparr>"

definition memset_cells :: "addr \<Rightarrow> 'a \<Rightarrow> nat \<Rightarrow> (addr \<Rightarrow> 'a) \<Rightarrow> (addr \<Rightarrow> 'a)" where
  "memset_cells p v nbytes h =
     (\<lambda>a. if p \<le> a \<and> a < p + int (nbytes div sizeof_float) then v else h a)"

definition memcpy_cells ::
  "addr \<Rightarrow> (addr \<Rightarrow> 'a) \<Rightarrow> addr \<Rightarrow> nat \<Rightarrow> (addr \<Rightarrow> 'a) \<Rightarrow> (addr \<Rightarrow> 'a)" where
  "memcpy_cells dst src_h src nbytes h =
     (\<lambda>a. if dst \<le> a \<and> a < dst + int (nbytes div sizeof_float)
          then src_h (src + (a - dst)) else h a)"

subsection \<open>Loops\<close>

text \<open>\<open>for (int k = 0; k < n; k++) body\<close>, the body as a state transformer.\<close>

definition iota :: "nat \<Rightarrow> int list" where
  "iota n = map int [0..<n]"

definition for_int :: "int \<Rightarrow> (int \<Rightarrow> 's \<Rightarrow> 's) \<Rightarrow> 's \<Rightarrow> 's" where
  "for_int n body s = fold body (iota (nat n)) s"

subsection \<open>Descriptor operations\<close>

text \<open>
  \<open>MatInit\<close> of \<open>matmult.cu\<close> assigns every field of \<open>*X\<close>, so the model returns the
  descriptor. In \<open>height * width * sizeof(float)\<close> the two \<open>int\<close>s are multiplied
  first, as an \<open>int\<close>; the product is then converted to \<open>size_t\<close> and multiplied by
  \<open>sizeof(float)\<close>.
\<close>

definition MatInit :: "int \<Rightarrow> int \<Rightarrow> Matrix" where
  "MatInit h w =
     \<lparr>width = w, height = h, size_bytes = nat ((int32 (h * w) * int sizeof_float) mod 2 ^ 64),
      stride = w, elements = NULL\<rparr>"

text \<open>The inline \<open>MatInit\<close> of the header, on the larger descriptor.\<close>

definition MatInit_inline :: "int \<Rightarrow> int \<Rightarrow> Mat" where
  "MatInit_inline h w =
     \<lparr>width = w, height = h, size_bytes = nat ((int32 (h * w) * int sizeof_float) mod 2 ^ 64),
      stride = w, elements = NULL, elements_malloc = NULL, elements_cudaMalloc = NULL\<rparr>"

definition MatInitHost :: "int \<Rightarrow> int \<Rightarrow> ('a::zero) mem \<Rightarrow> Matrix \<times> 'a mem" where
  "MatInitHost h w m =
     (let X = MatInit h w;
          (p, m1) = malloc_cells (size_bytes X) m;
          X1 = X\<lparr>elements := p\<rparr>
      in (X1, m1\<lparr>cell := memset_cells (elements X1) 0 (size_bytes X1) (cell m1)\<rparr>))"

definition MatInitGPU :: "int \<Rightarrow> int \<Rightarrow> ('a::zero) mem \<Rightarrow> Matrix \<times> 'a mem" where
  "MatInitGPU h w m =
     (let X = MatInit h w;
          (p, m1) = malloc_cells (size_bytes X) m;
          X1 = X\<lparr>elements := p\<rparr>
      in (X1, m1\<lparr>cell := memset_cells (elements X1) 0 (size_bytes X1) (cell m1)\<rparr>))"

text \<open>Element access: \<open>A->elements[r * A->stride + c]\<close>.\<close>

definition MatGetElement :: "'m Matrix_scheme \<Rightarrow> int \<Rightarrow> int \<Rightarrow> (addr \<Rightarrow> 'a) \<Rightarrow> 'a" where
  "MatGetElement A r c h = h (elements A + (r * stride A + c))"

definition MatSetElement ::
  "'m Matrix_scheme \<Rightarrow> int \<Rightarrow> int \<Rightarrow> 'a \<Rightarrow> (addr \<Rightarrow> 'a) \<Rightarrow> (addr \<Rightarrow> 'a)" where
  "MatSetElement A r c v h = h(elements A + (r * stride A + c) := v)"

text \<open>
  Modelled from the spec: \<open>matmult.cu\<close> calls \<open>GetElement\<close> and \<open>SetElement\<close> on a
  descriptor passed by value; the header that declares them is missing. The spec places
  the element at (r, c) at \<open>elements[r*stride + c]\<close>, which is what \<open>MatGetElement\<close>
  and \<open>MatSetElement\<close> of the header do.
\<close>

definition GetElement :: "'m Matrix_scheme \<Rightarrow> int \<Rightarrow> int \<Rightarrow> (addr \<Rightarrow> 'a) \<Rightarrow> 'a" where
  "GetElement A r c h = MatGetElement A r c h"

definition SetElement ::
  "'m Matrix_scheme \<Rightarrow> int \<Rightarrow> int \<Rightarrow> 'a \<Rightarrow> (addr \<Rightarrow> 'a) \<Rightarrow> (addr \<Rightarrow> 'a)" where
  "SetElement A r c v h = MatSetElement A r c v h"

text \<open>\<open>GetSubMatrix\<close> of \<open>matmult.cu\<close>: returns a fresh descriptor by value.\<close>

definition GetSubMatrix :: "'m Matrix_scheme \<Rightarrow> int \<Rightarrow> int \<Rightarrow> int \<Rightarrow> Matrix" where
  "GetSubMatrix A R C blockSize =
     (let Asub = MatInit blockSize blockSize;
          Asub = Asub\<lparr>stride := stride A\<rparr>;
          Asub = Asub\<lparr>elements := elements A + (R * stride A * blockSize + C * blockSize)\<rparr>
      in Asub)"

text \<open>
  \<open>MatGetSubMatrix\<close> of the header: writes into the caller's descriptor \<open>*Asub\<close>, after
  asserting that it owns no buffer.
\<close>

definition MatGetSubMatrix :: "Mat \<Rightarrow> int \<Rightarrow> int \<Rightarrow> int \<Rightarrow> Mat \<Rightarrow> Mat outcome" where
  "MatGetSubMatrix A R C blockSize Asub =
     (if \<not> (elements_cudaMalloc Asub = NULL \<and> elements_malloc Asub = NULL)
      then AssertFail Asub
      else Return (Asub\<lparr>stride := stride A,
                        elements := elements A + (R * stride A * blockSize + C * blockSize)\<rparr>))"

text \<open>
  \<open>MatMultElement\<close>: the running total \<open>C_rc\<close> is the loop state.
\<close>

definition MatMultElement ::
  "'m Matrix_scheme \<Rightarrow> 'n Matrix_scheme \<Rightarrow> int \<Rightarrow> int \<Rightarrow> (addr \<Rightarrow> 'a) \<Rightarrow> ('a::{zero,plus,times})"
  where
  "MatMultElement A B r c h =
     for_int (width A)
       (\<lambda>k C_rc. C_rc + h (elements A + (r * stride A + k)) * h (elements B + (k * stride B + c)))
       0"

section \<open>Host reference multiplication and comparison\<close>

text \<open>The two nested loops of \<open>MatMultHost\<close>, on the cells of host memory.\<close>

definition MatMultHost_loops ::
  "'m Matrix_scheme \<Rightarrow> 'n Matrix_scheme \<Rightarrow> 'k Matrix_scheme \<Rightarrow>
     (addr \<Rightarrow> ('a::{zero,plus,times})) \<Rightarrow> (addr \<Rightarrow> 'a)" where
  "MatMultHost_loops A B C h =
     for_int (height A) (\<lambda>r.
       for_int (width B) (\<lambda>c h.
         SetElement C r c (MatMultElement A B r c h) h)) h"

definition MatMultHost ::
  "'m Matrix_scheme \<Rightarrow> 'n Matrix_scheme \<Rightarrow> 'k Matrix_scheme \<Rightarrow>
     ('a::{zero,plus,times}) machine \<Rightarrow> 'a machine outcome" where
  "MatMultHost A B C s =
     (if width A \<noteq> height B then AssertFail s
      else if height A \<noteq> height C then AssertFail s
      else if width B \<noteq> width C then AssertFail s
      else Return (s\<lparr>host := (host s)\<lparr>cell := MatMultHost_loops A B C (cell (host s))\<rparr>\<rparr>))"

text \<open>
  \<open>MatEqual\<close>: the two loops return \<open>false\<close> at the first pair of elements further
  apart than \<open>tol\<close>; the functions below run the rest of the inner and of the outer loop.
\<close>

fun MatEqual_cols ::
  "'m Matrix_scheme \<Rightarrow> 'n Matrix_scheme \<Rightarrow> ('a::{minus,abs,ord}) \<Rightarrow> (addr \<Rightarrow> 'a) \<Rightarrow>
     int \<Rightarrow> int list \<Rightarrow> bool" where
  "MatEqual_cols A B tol h r [] = True"
| "MatEqual_cols A B tol h r (c # cs) =
     (if \<bar>GetElement A r c h - GetElement B r c h\<bar> > tol then False
      else MatEqual_cols A B tol h r cs)"

fun MatEqual_rows ::
  "'m Matrix_scheme \<Rightarrow> 'n Matrix_scheme \<Rightarrow> ('a::{minus,abs,ord}) \<Rightarrow> (addr \<Rightarrow> 'a) \<Rightarrow>
     int list \<Rightarrow> int list \<Rightarrow> bool" where
  "MatEqual_rows A B tol h [] cs = True"
| "MatEqual_rows A B tol h (r # rs) cs =
     (if MatEqual_cols A B tol h r cs then MatEqual_rows A B tol h rs cs else False)"

definition MatEqual ::
  "'m Matrix_scheme \<Rightarrow> 'n Matrix_scheme \<Rightarrow> ('a::{minus,abs,ord}) \<Rightarrow> (addr \<Rightarrow> 'a) \<Rightarrow> bool" where
  "MatEqual A B tol h =
     (if height A \<noteq> height B \<or> width A \<noteq> width B then False
      else MatEqual_rows A B tol h (iota (nat (height A))) (iota (nat (width A))))"


section \<open>Kernels\<close>

text \<open>
  A \<open>dim3\<close> with \<open>z = 1\<close>: the pair \<open>(x, y)\<close>. \<open>coords d\<close> lists the indices below \<open>d\<close>.
  A launch runs the blocks of the grid one after the other in this order, and the
  threads of a block one after the other between two barriers: one schedule of the
  parallel execution.
\<close>

type_synonym dim3 = "nat \<times> nat"

definition coords :: "dim3 \<Rightarrow> dim3 list" where
  "coords d = concat (map (\<lambda>y. map (\<lambda>x. (x, y)) [0..<fst d]) [0..<snd d])"

text \<open>The basic kernel, for the thread \<open>threadIdx\<close> of the block \<open>blockIdx\<close>.\<close>

definition MatMult_k0 ::
  "Matrix \<Rightarrow> Matrix \<Rightarrow> Matrix \<Rightarrow> dim3 \<Rightarrow> dim3 \<Rightarrow> dim3 \<Rightarrow>
     (addr \<Rightarrow> ('a::{zero,plus,times})) \<Rightarrow> (addr \<Rightarrow> 'a)" where
  "MatMult_k0 A B C blockIdx blockDim threadIdx h =
     (let r = int (snd blockIdx * snd blockDim + snd threadIdx);
          c = int (fst blockIdx * fst blockDim + fst threadIdx)
      in SetElement C r c (MatMultElement A B r c h) h)"

definition launch_k0 ::
  "dim3 \<Rightarrow> dim3 \<Rightarrow> Matrix \<Rightarrow> Matrix \<Rightarrow> Matrix \<Rightarrow>
     (addr \<Rightarrow> ('a::{zero,plus,times})) \<Rightarrow> (addr \<Rightarrow> 'a)" where
  "launch_k0 gridDim blockDim A B C h =
     fold (\<lambda>blockIdx. fold (MatMult_k0 A B C blockIdx blockDim) (coords blockDim))
       (coords gridDim) h"

text \<open>
  The optimized kernel, for one block. The shared memory holds \<open>Asubs\<close> at cell 0 and
  \<open>Bsubs\<close> at cell \<open>w * w\<close>; \<open>Csub_rc\<close> maps each thread to its private running total.
  Between the two \<open>__syncthreads()\<close> every thread of the block stages its two
  elements (\<open>k1_stage\<close>); after the second barrier every thread adds its \<open>w\<close>
  products (\<open>k1_accumulate\<close>).
\<close>

definition k1_stage ::
  "Matrix \<Rightarrow> Matrix \<Rightarrow> int \<Rightarrow> (addr \<Rightarrow> 'a) \<Rightarrow> dim3 \<Rightarrow> (addr \<Rightarrow> 'a) \<Rightarrow> (addr \<Rightarrow> 'a)" where
  "k1_stage Asub Bsub w h threadIdx sh =
     (let r = int (snd threadIdx); c = int (fst threadIdx);
          Asubs = 0; Bsubs = w * w;
          sh = sh(Asubs + (r * w + c) := GetElement Asub r c h);
          sh = sh(Bsubs + (r * w + c) := GetElement Bsub r c h)
      in sh)"

definition k1_accumulate ::
  "int \<Rightarrow> (addr \<Rightarrow> 'a) \<Rightarrow> dim3 \<Rightarrow> ('a::{plus,times}) \<Rightarrow> 'a" where
  "k1_accumulate w sh threadIdx Csub_rc =
     (let r = int (snd threadIdx); c = int (fst threadIdx);
          Asubs = 0; Bsubs = w * w
      in for_int w (\<lambda>k Csub_rc. Csub_rc + sh (Asubs + (r * w + k)) * sh (Bsubs + (k * w + c)))
           Csub_rc)"

definition k1_tile ::
  "Matrix \<Rightarrow> Matrix \<Rightarrow> int \<Rightarrow> int \<Rightarrow> int \<Rightarrow> dim3 list \<Rightarrow> (addr \<Rightarrow> 'a) \<Rightarrow> int \<Rightarrow>
     (addr \<Rightarrow> 'a) \<times> (dim3 \<Rightarrow> ('a::{plus,times})) \<Rightarrow> (addr \<Rightarrow> 'a) \<times> (dim3 \<Rightarrow> 'a)" where
  "k1_tile MatA MatB R C w threads h K st =
     (let Asub = GetSubMatrix MatA R K w;
          Bsub = GetSubMatrix MatB K C w;
          sh = fold (k1_stage Asub Bsub w h) threads (fst st);
          Csub_rc = fold (\<lambda>t acc. acc(t := k1_accumulate w sh t (acc t))) threads (snd st)
      in (sh, Csub_rc))"

definition MatMult_k1 ::
  "Matrix \<Rightarrow> Matrix \<Rightarrow> Matrix \<Rightarrow> dim3 \<Rightarrow> dim3 \<Rightarrow> (addr \<Rightarrow> 'a) \<Rightarrow>
     (addr \<Rightarrow> ('a::{zero,plus,times})) \<Rightarrow> (addr \<Rightarrow> 'a)" where
  "MatMult_k1 MatA MatB MatC blockIdx blockDim sh0 h =
     (let R = int (snd blockIdx); C = int (fst blockIdx);
          w = int (fst blockDim);
          W = width MatA sdiv w;
          Csub = GetSubMatrix MatC R C w;
          threads = coords blockDim;
          st = for_int W (k1_tile MatA MatB R C w threads h) (sh0, \<lambda>t. 0)
      in fold (\<lambda>t. SetElement Csub (int (snd t)) (int (fst t)) (snd st t)) threads h)"

definition launch_k1 ::
  "dim3 \<Rightarrow> dim3 \<Rightarrow> (addr \<Rightarrow> 'a) \<Rightarrow> Matrix \<Rightarrow> Matrix \<Rightarrow> Matrix \<Rightarrow>
     (addr \<Rightarrow> ('a::{zero,plus,times})) \<Rightarrow> (addr \<Rightarrow> 'a)" where
  "launch_k1 gridDim blockDim sh0 A B C h =
     fold (\<lambda>blockIdx. MatMult_k1 A B C blockIdx blockDim sh0) (coords gridDim) h"

section \<open>Host orchestrator\<close>

text \<open>
  The launch configuration of \<open>MatMultGPU\<close>: \<open>dimBlock\<close> and \<open>dimGrid\<close>. The division
  is unsigned: the \<open>int\<close> operand is converted to \<open>unsigned\<close> first.
\<close>

definition dimBlock :: dim3 where
  "dimBlock = (BLOCK_SIZE, BLOCK_SIZE)"

definition dimGrid :: "'m Matrix_scheme \<Rightarrow> 'n Matrix_scheme \<Rightarrow> dim3" where
  "dimGrid A B =
     (nat (width B mod 2 ^ 32) div fst dimBlock, nat (height A mod 2 ^ 32) div snd dimBlock)"

definition cudaMemcpy ::
  "addr \<Rightarrow> 'a mem \<Rightarrow> addr \<Rightarrow> nat \<Rightarrow> 'a mem \<Rightarrow> 'a mem" where
  "cudaMemcpy dst src_m src nbytes m =
     m\<lparr>cell := memcpy_cells dst (cell src_m) src nbytes (cell m)\<rparr>"

definition MatMultGPU ::
  "'m Matrix_scheme \<Rightarrow> 'n Matrix_scheme \<Rightarrow> 'k Matrix_scheme \<Rightarrow> bool \<Rightarrow>
     ('a::{zero,plus,times}) machine \<Rightarrow> 'a machine outcome" where
  "MatMultGPU A B C optimized s =
     (if width A \<noteq> height B then AssertFail s
      else if height A \<noteq> height C then AssertFail s
      else if width B \<noteq> width C then AssertFail s
      else
        let (d_A, dev) = MatInitGPU (height A) (width A) (device s);
            dev = cudaMemcpy (elements d_A) (host s) (elements A) (size_bytes A) dev;
            (d_B, dev) = MatInitGPU (height B) (width B) dev;
            dev = cudaMemcpy (elements d_B) (host s) (elements B) (size_bytes B) dev;
            (d_C, dev) = MatInitGPU (height C) (width C) dev;
            dev = dev\<lparr>cell :=
                    (if optimized
                     then launch_k1 (dimGrid A B) dimBlock (scratch s) d_A d_B d_C (cell dev)
                     else launch_k0 (dimGrid A B) dimBlock d_A d_B d_C (cell dev))\<rparr>;
            hst = cudaMemcpy (elements C) dev (elements d_C) (size_bytes C) (host s);
            dev = free_cells (elements d_A) dev;
            dev = free_cells (elements d_B) dev;
            dev = free_cells (elements d_C) dev
        in Return (s\<lparr>host := hst, device := dev\<rparr>))"

section \<open>Test data\<close>

text \<open>
  A machine whose host cell at address \<open>a\<close> holds the number \<open>a\<close>, and square matrices
  of sizes 2 and 4 laid out one after the other from address 10.
\<close>

definition test_machine :: "int machine" where
  "test_machine =
     \<lparr>host = \<lparr>cell = (\<lambda>a. a), brk = 100, live = []\<rparr>,
      device = \<lparr>cell = (\<lambda>a. 0), brk = 1, live = []\<rparr>,
      scratch = (\<lambda>a. 0)\<rparr>"

definition X2 :: Matrix where "X2 = (MatInit 2 2)\<lparr>elements := 10\<rparr>"

definition Y2 :: Matrix where "Y2 = (MatInit 2 2)\<lparr>elements := 14\<rparr>"

definition Z2 :: Matrix where "Z2 = (MatInit 2 2)\<lparr>elements := 18\<rparr>"

definition Y1_2 :: Matrix where "Y1_2 = (MatInit 2 2)\<lparr>elements := 22\<rparr>"

definition X4 :: Matrix where "X4 = (MatInit 4 4)\<lparr>elements := 10\<rparr>"

definition Y4 :: Matrix where "Y4 = (MatInit 4 4)\<lparr>elements := 26\<rparr>"

definition Z4 :: Matrix where "Z4 = (MatInit 4 4)\<lparr>elements := 42\<rparr>"

definition W4 :: Matrix where "W4 = (MatInit 4 4)\<lparr>elements := 58\<rparr>"

text \<open>A 4 by 8 matrix at address 10, and the sub-view of its left 4 by 4 block.\<close>

definition P8 :: Matrix where "P8 = (MatInit 4 8)\<lparr>elements := 10\<rparr>"

definition V4 :: Matrix where "V4 = GetSubMatrix P8 0 0 4"




section \<open>Notions used in the statements\<close>

text \<open>
  The cells of memory that hold the elements of a descriptor: the addresses of the
  elements (r, c) with \<open>0 \<le> r < height\<close> and \<open>0 \<le> c < width\<close>.
\<close>

definition cells :: "'m Matrix_scheme \<Rightarrow> addr set" where
  "cells X =
     set (map (\<lambda>(r, c). elements X + (r * stride X + c))
            (List.product (iota (nat (height X))) (iota (nat (width X)))))"

text \<open>
  A loop of single-cell writes: step \<open>i\<close> stores \<open>val i\<close>, computed from the memory
  reached so far, at address \<open>ad i\<close>.
\<close>

definition upd_loop ::
  "('i \<Rightarrow> addr) \<Rightarrow> ('i \<Rightarrow> (addr \<Rightarrow> 'a) \<Rightarrow> 'a) \<Rightarrow> 'i list \<Rightarrow> (addr \<Rightarrow> 'a) \<Rightarrow> (addr \<Rightarrow> 'a)" where
  "upd_loop ad val xs h = fold (\<lambda>i h. h(ad i := val i h)) xs h"

text \<open>
  The workers of a launch (block index, thread index), and the element of the result
  that a worker writes: row \<open>blockIdx.y * blockDim.y + threadIdx.y\<close>, column
  \<open>blockIdx.x * blockDim.x + threadIdx.x\<close>.
\<close>

definition workers :: "dim3 \<Rightarrow> dim3 \<Rightarrow> (dim3 \<times> dim3) list" where
  "workers gridDim blockDim = List.product (coords gridDim) (coords blockDim)"

definition worker_element :: "dim3 \<Rightarrow> dim3 \<Rightarrow> dim3 \<Rightarrow> int \<times> int" where
  "worker_element blockIdx blockDim threadIdx =
     (int (snd blockIdx * snd blockDim + snd threadIdx),
      int (fst blockIdx * fst blockDim + fst threadIdx))"


text \<open>
  The sum of \<open>f 0\<close>, ..., \<open>f (n - 1)\<close> accumulated from the left, starting from 0:
  \<open>((0 + f 0) + f 1) + ...\<close>. No law of the arithmetic is assumed; in a commutative
  monoid it is the sum.
\<close>

fun left_sum :: "(int \<Rightarrow> 'a::{zero,plus}) \<Rightarrow> nat \<Rightarrow> 'a" where
  "left_sum f 0 = 0"
| "left_sum f (Suc n) = left_sum f n + f (int n)"

text \<open>The running total of \<open>MatMultElement\<close> after its first \<open>n\<close> iterations.\<close>

definition dot_upto ::
  "'m Matrix_scheme \<Rightarrow> 'n Matrix_scheme \<Rightarrow> int \<Rightarrow> int \<Rightarrow> (addr \<Rightarrow> 'a) \<Rightarrow> nat \<Rightarrow>
     ('a::{zero,plus,times})" where
  "dot_upto A B r c h n =
     fold (\<lambda>k C_rc. C_rc + h (elements A + (r * stride A + k)) * h (elements B + (k * stride B + c)))
       (iota n) 0"

text \<open>
  A descriptor as \<open>MatInit\<close> sizes it when nothing overflows: the dimensions and
  their product in the range of a C \<open>int\<close>, and
  \<open>size = height * width * sizeof(float)\<close>. A whole matrix has \<open>stride = width\<close>
  as well; a sub-view made by \<open>GetSubMatrix\<close> keeps its parent's stride.
\<close>

definition sized_matrix :: "'m Matrix_scheme \<Rightarrow> bool" where
  "sized_matrix X \<longleftrightarrow>
     0 \<le> height X \<and> height X < 2 ^ 31 \<and> 0 \<le> width X \<and> width X < 2 ^ 31 \<and>
     height X * width X < 2 ^ 31 \<and>
     size_bytes X = nat (height X * width X) * sizeof_float"

definition whole_matrix :: "'m Matrix_scheme \<Rightarrow> bool" where
  "whole_matrix X \<longleftrightarrow> sized_matrix X \<and> stride X = width X"

section \<open>Loops and index lists\<close>

lemma set_iota: "set (iota n) = {0..<int n}"
  by (simp add: iota_def image_int_atLeastLessThan)

lemma set_iota_nat: "set (iota (nat n)) = {0..<n}"
  by (auto simp: set_iota)

lemma cells_eq:
  "cells X =
     {elements X + (r * stride X + c) | r c. 0 \<le> r \<and> r < height X \<and> 0 \<le> c \<and> c < width X}"
  unfolding cells_def by (fastforce simp: set_iota_nat image_iff)

lemma distinct_iota: "distinct (iota n)"
  by (simp add: iota_def distinct_map inj_on_def)

lemma iota_Suc: "iota (Suc n) = iota n @ [int n]"
  by (simp add: iota_def)

lemma set_coords: "set (coords d) = {0..<fst d} \<times> {0..<snd d}"
  by (auto simp: coords_def)

lemma concat_map_product:
  "concat (map (\<lambda>y. map (\<lambda>x. f x y) xs) ys) = map (\<lambda>(y, x). f x y) (List.product ys xs)"
  by (induction ys) (simp_all add: comp_def)

lemma coords_product: "coords d = map prod.swap (List.product [0..<snd d] [0..<fst d])"
  unfolding coords_def concat_map_product
  by (rule map_cong) auto

lemma distinct_coords: "distinct (coords d)"
  by (simp add: coords_product distinct_map distinct_product)

lemma fold_nested_product:
  "fold (\<lambda>x. fold (f x) ys) xs s = fold (\<lambda>(x, y). f x y) (List.product xs ys) s"
  by (induction xs arbitrary: s) (simp_all add: fold_map comp_def)

lemma upd_loop_Nil: "upd_loop ad val [] h = h"
  by (simp add: upd_loop_def)

lemma upd_loop_snoc:
  "upd_loop ad val (xs @ [x]) h = (upd_loop ad val xs h)(ad x := val x (upd_loop ad val xs h))"
  by (simp add: upd_loop_def)

lemma upd_loop_other:
  "a \<notin> ad ` set xs \<Longrightarrow> upd_loop ad val xs h a = h a"
  by (induction xs rule: rev_induct) (simp_all add: upd_loop_Nil upd_loop_snoc)

lemma upd_loop_at:
  assumes "ad ` set xs \<subseteq> W" and "inj_on ad (set xs)"
    and "\<And>j h'. j \<in> set xs \<Longrightarrow> (\<And>a. a \<notin> W \<Longrightarrow> h' a = h a) \<Longrightarrow> val j h' = val j h"
    and "i \<in> set xs"
  shows "upd_loop ad val xs h (ad i) = val i h"
  using assms
proof (induction xs arbitrary: i rule: rev_induct)
  case Nil
  then show ?case by simp
next
  case (snoc x xs)
  let ?g = "upd_loop ad val xs h"
  have sub: "ad ` set xs \<subseteq> W" and inj: "inj_on ad (set xs)"
    using snoc.prems(1,2) by (auto simp: inj_on_def)
  have same: "?g a = h a" if "a \<notin> W" for a
    by (rule upd_loop_other) (use that sub in auto)
  have vx: "val x ?g = val x h"
    by (rule snoc.prems(3)) (simp_all add: same)
  show ?case
  proof (cases "i = x")
    case True
    then show ?thesis by (simp add: upd_loop_snoc vx)
  next
    case False
    with snoc.prems(4) have i: "i \<in> set xs" by simp
    have ne: "ad i \<noteq> ad x"
      using snoc.prems(2) i False by (auto simp: inj_on_def)
    have "?g (ad i) = val i h"
      by (rule snoc.IH [OF sub inj _ i]) (rule snoc.prems(3), auto)
    then show ?thesis using ne by (simp add: upd_loop_snoc)
  qed
qed

lemma upd_loop_frozen:
  assumes "ad ` set xs \<subseteq> W"
    and "\<And>j h'. j \<in> set xs \<Longrightarrow> (\<And>a. a \<notin> W \<Longrightarrow> h' a = h a) \<Longrightarrow> val j h' = val j h"
  shows "upd_loop ad val xs h = upd_loop ad (\<lambda>i h'. val i h) xs h"
  using assms
proof (induction xs rule: rev_induct)
  case Nil
  then show ?case by (simp add: upd_loop_Nil)
next
  case (snoc x xs)
  let ?g = "upd_loop ad val xs h"
  have sub: "ad ` set xs \<subseteq> W"
    using snoc.prems(1) by auto
  have same: "?g a = h a" if "a \<notin> W" for a
    by (rule upd_loop_other) (use that sub in auto)
  have vx: "val x ?g = val x h"
    by (rule snoc.prems(2)) (simp_all add: same)
  have eq: "?g = upd_loop ad (\<lambda>i h'. val i h) xs h"
    by (rule snoc.IH [OF sub]) (rule snoc.prems(2), auto)
  have "upd_loop ad val (xs @ [x]) h = ?g(ad x := val x h)"
    by (simp only: upd_loop_snoc vx)
  also have "\<dots> = upd_loop ad (\<lambda>i h'. val i h) (xs @ [x]) h"
    by (simp only: upd_loop_snoc eq [symmetric])
  finally show ?case .
qed

text \<open>The cells a dot product reads.\<close>

lemma MatMultElement_cong:
  assumes "\<And>k. 0 \<le> k \<Longrightarrow> k < width A \<Longrightarrow>
      h (elements A + (r * stride A + k)) = h' (elements A' + (r' * stride A' + k))"
    and "\<And>k. 0 \<le> k \<Longrightarrow> k < width A \<Longrightarrow>
      h (elements B + (k * stride B + c)) = h' (elements B' + (k * stride B' + c'))"
    and "width A = width A'"
  shows "MatMultElement A B r c h = MatMultElement A' B' r' c' h'"
  unfolding MatMultElement_def for_int_def
  using assms by (intro fold_cong) (auto simp: set_iota_nat)

lemma MatMultElement_frame:
  assumes "\<And>a. a \<notin> W \<Longrightarrow> h' a = h a"
    and "W \<inter> cells A = {}" and "W \<inter> cells B = {}"
    and "width A = height B" and "0 \<le> r" "r < height A" "0 \<le> c" "c < width B"
  shows "MatMultElement A B r c h' = MatMultElement A B r c h"
proof (rule MatMultElement_cong)
  fix k :: int
  assume k: "0 \<le> k" "k < width A"
  have "elements A + (r * stride A + k) \<in> cells A"
    using k assms(5,6) by (auto simp: cells_eq)
  then show "h' (elements A + (r * stride A + k)) = h (elements A + (r * stride A + k))"
    using assms(1,2) by auto
  have "elements B + (k * stride B + c) \<in> cells B"
    using k assms(4,7,8) by (auto simp: cells_eq)
  then show "h' (elements B + (k * stride B + c)) = h (elements B + (k * stride B + c))"
    using assms(1,3) by auto
qed simp

text \<open>Rows of a descriptor with \<open>stride \<ge> width\<close> do not overlap.\<close>

lemma cell_index_inj:
  fixes s :: int
  assumes "r * s + c = r' * s + c'" and "0 \<le> c" "c < w" "0 \<le> c'" "c' < w" "w \<le> s"
  shows "r = r' \<and> c = c'"
proof -
  have "(r - r') * s = c' - c"
    using assms(1) by (simp add: algebra_simps)
  moreover have "\<bar>c' - c\<bar> < s"
    using assms by linarith
  ultimately have "\<bar>(r - r') * s\<bar> < s" by simp
  then have "\<bar>r - r'\<bar> * \<bar>s\<bar> < 1 * \<bar>s\<bar>"
    by (simp add: abs_mult)
  then have "\<bar>r - r'\<bar> < 1"
    by (rule mult_right_less_imp_less) simp
  then have "r = r'" by simp
  with assms(1) show ?thesis by simp
qed

section \<open>Sub-views\<close>

text \<open>
  C4. \<open>MatGetSubMatrix\<close> checks its target before aliasing it: a target with a
  host-allocated or a device-allocated buffer stops at the assertion and is left as it
  was; a target without one is returned with the parent's stride and a pointer into
  the parent's buffer. \<open>GetSubMatrix\<close> of \<open>matmult.cu\<close> has no target: the descriptor
  it aliases is the one \<open>MatInit\<close> has just made, whose pointer is null.
\<close>

theorem getSubView_asserts_target_owns_no_buffer:
  "(elements_malloc Asub \<noteq> NULL \<or> elements_cudaMalloc Asub \<noteq> NULL \<longrightarrow>
      MatGetSubMatrix A R C T Asub = AssertFail Asub) \<and>
   (elements_malloc Asub = NULL \<and> elements_cudaMalloc Asub = NULL \<longrightarrow>
      MatGetSubMatrix A R C T Asub =
        Return (Asub\<lparr>stride := stride A,
                      elements := elements A + (R * stride A * T + C * T)\<rparr>)) \<and>
   GetSubMatrix A R C T =
     (MatInit T T)\<lparr>stride := stride A, elements := elements A + (R * stride A * T + C * T)\<rparr> \<and>
   elements (MatInit T T) = NULL"
  by (simp add: MatGetSubMatrix_def GetSubMatrix_def MatInit_def)

theorem getSubView_asserts_target_owns_no_buffer_witness:
  "elements_malloc ((MatInit_inline 4 4)\<lparr>elements_malloc := 64\<rparr>) \<noteq> NULL \<and>
   MatGetSubMatrix ((MatInit_inline 8 8)\<lparr>elements := 100\<rparr>) 1 1 4
       ((MatInit_inline 4 4)\<lparr>elements_malloc := 64\<rparr>) =
     AssertFail ((MatInit_inline 4 4)\<lparr>elements_malloc := 64\<rparr>) \<and>
   elements_malloc (MatInit_inline 4 4) = NULL \<and>
   elements_cudaMalloc (MatInit_inline 4 4) = NULL \<and>
   MatGetSubMatrix ((MatInit_inline 8 8)\<lparr>elements := 100\<rparr>) 1 1 4 (MatInit_inline 4 4) =
     Return ((MatInit_inline 4 4)\<lparr>stride := 8, elements := 136\<rparr>)"
  using getSubView_asserts_target_owns_no_buffer
          [where Asub = "(MatInit_inline 4 4)\<lparr>elements_malloc := 64\<rparr>"
             and A = "(MatInit_inline 8 8)\<lparr>elements := 100\<rparr>" and R = 1 and C = 1 and T = 4]
        getSubView_asserts_target_owns_no_buffer
          [where Asub = "MatInit_inline 4 4"
             and A = "(MatInit_inline 8 8)\<lparr>elements := 100\<rparr>" and R = 1 and C = 1 and T = 4]
  by (simp add: MatInit_inline_def NULL_def)

text \<open>
  C5. The sub-view of block (R, C) with tile size T has the parent's stride, its pointer
  is the parent's pointer plus \<open>R * stride * T + C * T\<close>, and its element (r, c) is the
  parent's element (R*T + r, C*T + c), in every memory. Neither function takes or
  returns a memory: nothing is allocated, and \<open>MatGetSubMatrix\<close> leaves the two
  ownership fields null.
\<close>

theorem getSubView_aliases_parent:
  "stride (GetSubMatrix A R C T) = stride A \<and>
   elements (GetSubMatrix A R C T) = elements A + (R * stride A * T + C * T) \<and>
   GetElement (GetSubMatrix A R C T) r c h = GetElement A (R * T + r) (C * T + c) h \<and>
   SetElement (GetSubMatrix A R C T) r c v h = SetElement A (R * T + r) (C * T + c) v h \<and>
   (MatGetSubMatrix M R C T Msub = Return S \<longrightarrow>
      stride S = stride M \<and>
      elements S = elements M + (R * stride M * T + C * T) \<and>
      MatGetElement S r c h = MatGetElement M (R * T + r) (C * T + c) h \<and>
      elements_malloc S = NULL \<and> elements_cudaMalloc S = NULL)"
proof -
  have sub: "GetElement (GetSubMatrix A R C T) r c h = GetElement A (R * T + r) (C * T + c) h"
    by (simp add: GetElement_def MatGetElement_def GetSubMatrix_def MatInit_def algebra_simps)
  have upd: "SetElement (GetSubMatrix A R C T) r c v h = SetElement A (R * T + r) (C * T + c) v h"
    by (simp add: SetElement_def MatSetElement_def GetSubMatrix_def MatInit_def algebra_simps)
  have hdr: "MatGetElement S r c h = MatGetElement M (R * T + r) (C * T + c) h"
    if "MatGetSubMatrix M R C T Msub = Return S"
  proof -
    from that have "stride S = stride M"
      and "elements S = elements M + (R * stride M * T + C * T)"
      by (auto simp: MatGetSubMatrix_def split: if_splits)
    then show ?thesis
      by (simp add: MatGetElement_def algebra_simps)
  qed
  show ?thesis
    using sub upd hdr
    by (auto simp: GetSubMatrix_def MatInit_def MatGetSubMatrix_def split: if_splits)
qed

theorem getSubView_aliases_parent_witness:
  "MatGetSubMatrix ((MatInit_inline 8 8)\<lparr>elements := 100\<rparr>) 1 1 4 (MatInit_inline 4 4) =
     Return ((MatInit_inline 4 4)\<lparr>stride := 8, elements := 136\<rparr>) \<and>
   MatGetElement ((MatInit_inline 4 4)\<lparr>stride := 8, elements := 136\<rparr>) 2 3 (\<lambda>a. a) =
     MatGetElement ((MatInit_inline 8 8)\<lparr>elements := 100\<rparr>) 6 7 (\<lambda>a. a) \<and>
   MatGetElement ((MatInit_inline 8 8)\<lparr>elements := 100\<rparr>) 6 7 (\<lambda>a. a) = 155"
  using getSubView_aliases_parent
          [where M = "(MatInit_inline 8 8)\<lparr>elements := 100\<rparr>" and R = 1 and C = 1 and T = 4
             and Msub = "MatInit_inline 4 4"
             and S = "(MatInit_inline 4 4)\<lparr>stride := 8, elements := 136\<rparr>"
             and r = 2 and c = 3 and h = "\<lambda>a. a"]
  by (simp add: MatGetSubMatrix_def MatInit_inline_def NULL_def MatGetElement_def)

text \<open>
  C6. Initialisation makes the stride equal to the width (\<open>MatInit\<close>, \<open>MatInitHost\<close>,
  \<open>MatInitGPU\<close>, and the header's \<open>MatInit\<close>), and a sub-view of a parent with
  \<open>stride \<ge> width\<close> and tile size \<open>T \<le> width\<close> has the parent's stride and width T,
  so \<open>stride \<ge> width\<close> again.
\<close>

theorem stride_ge_width_invariant:
  "stride (MatInit h w) = width (MatInit h w) \<and>
   stride (MatInit_inline h w) = width (MatInit_inline h w) \<and>
   stride (fst (MatInitHost h w m)) = width (fst (MatInitHost h w m)) \<and>
   stride (fst (MatInitGPU h w m)) = width (fst (MatInitGPU h w m)) \<and>
   (width A \<le> stride A \<and> T \<le> width A \<longrightarrow>
      stride (GetSubMatrix A R C T) = stride A \<and>
      width (GetSubMatrix A R C T) = T \<and>
      width (GetSubMatrix A R C T) \<le> stride (GetSubMatrix A R C T))"
  by (simp add: MatInit_def MatInit_inline_def MatInitHost_def MatInitGPU_def
      GetSubMatrix_def malloc_cells_def Let_def)

theorem stride_ge_width_invariant_witness:
  "width ((MatInit 8 12)\<lparr>elements := 100\<rparr>) \<le> stride ((MatInit 8 12)\<lparr>elements := 100\<rparr>) \<and>
   (4::int) \<le> width ((MatInit 8 12)\<lparr>elements := 100\<rparr>) \<and>
   stride (GetSubMatrix ((MatInit 8 12)\<lparr>elements := 100\<rparr>) 1 2 4) = 12 \<and>
   width (GetSubMatrix ((MatInit 8 12)\<lparr>elements := 100\<rparr>) 1 2 4) = 4"
  using stride_ge_width_invariant
          [where A = "(MatInit 8 12)\<lparr>elements := 100\<rparr>" and T = 4 and R = 1 and C = 2
             and h = 8 and w = 12 and m = "\<lparr>cell = \<lambda>a. 0::int, brk = 1, live = []\<rparr>"]
  by (simp add: MatInit_def)

section \<open>Shape assertions\<close>

text \<open>
  C3. \<open>MatMultHost\<close> and \<open>MatMultGPU\<close> (with either kernel) stop at an assertion when
  one of the three shape equalities fails, in the state they were called in: nothing was
  allocated, copied or computed. When the three equalities hold, both return.
\<close>

theorem shape_assertions:
  "(width A \<noteq> height B \<or> height A \<noteq> height C \<or> width B \<noteq> width C \<longrightarrow>
      MatMultHost A B C s = AssertFail s \<and> MatMultGPU A B C optimized s = AssertFail s) \<and>
   (width A = height B \<and> height A = height C \<and> width B = width C \<longrightarrow>
      (\<exists>s'. MatMultHost A B C s = Return s') \<and>
      (\<exists>s'. MatMultGPU A B C optimized s = Return s'))"
  by (simp add: MatMultHost_def MatMultGPU_def Let_def split_def)

section \<open>Comparison\<close>

lemma MatEqual_cols_exceeds:
  "MatEqual_cols A B tol h r cs \<longleftrightarrow>
    (\<forall>c\<in>set cs. \<not> tol < \<bar>GetElement A r c h - GetElement B r c h\<bar>)"
  by (induction cs) auto

lemma MatEqual_rows_exceeds:
  "MatEqual_rows A B tol h rs cs \<longleftrightarrow>
    (\<forall>r\<in>set rs. \<forall>c\<in>set cs. \<not> tol < \<bar>GetElement A r c h - GetElement B r c h\<bar>)"
  by (induction rs) (auto simp: MatEqual_cols_exceeds)

lemma MatEqual_rows_iff:
  fixes tol :: "'a::{linorder,minus,abs}"
  shows "MatEqual_rows A B tol h rs cs \<longleftrightarrow>
    (\<forall>r\<in>set rs. \<forall>c\<in>set cs. \<bar>GetElement A r c h - GetElement B r c h\<bar> \<le> tol)"
  by (simp add: MatEqual_rows_exceeds not_less)

text \<open>
  C8. \<open>MatEqual\<close> returns false when the heights or the widths differ; when both are
  equal it returns true exactly when at no position the absolute difference of the two
  elements exceeds \<open>tol\<close>. This is the test the code makes (\<open>fabs(a - b) > tol\<close>), and
  it needs no law of the order: it holds for any subtraction, absolute value and
  comparison, so also where a comparison with a NaN is false. In a linear order, not
  exceeding \<open>tol\<close> is \<open>\<le> tol\<close>.
\<close>

theorem MatEqual_spec:
  fixes tol :: "'a::{ord,minus,abs}" and tol' :: "'b::{linorder,minus,abs}"
  shows "(height A \<noteq> height B \<or> width A \<noteq> width B \<longrightarrow> \<not> MatEqual A B tol h) \<and>
   (height A = height B \<and> width A = width B \<longrightarrow>
     MatEqual A B tol h =
       (\<forall>r\<in>{0..<height A}. \<forall>c\<in>{0..<width A}.
           \<not> tol < \<bar>GetElement A r c h - GetElement B r c h\<bar>) \<and>
     MatEqual A B tol' h' =
       (\<forall>r\<in>{0..<height A}. \<forall>c\<in>{0..<width A}.
           \<bar>GetElement A r c h' - GetElement B r c h'\<bar> \<le> tol'))"
  by (simp add: MatEqual_def MatEqual_rows_exceeds set_iota_nat not_less)

section \<open>Host multiplication\<close>

lemma nested_for_upd_loop:
  "for_int H (\<lambda>r. for_int W (\<lambda>c h. SetElement C r c (M r c h) h)) h0 =
   upd_loop (\<lambda>(r, c). elements C + (r * stride C + c)) (\<lambda>(r, c). M r c)
     (List.product (iota (nat H)) (iota (nat W))) h0"
  unfolding for_int_def fold_nested_product upd_loop_def SetElement_def MatSetElement_def
  by (rule fold_cong) auto

lemma MatMultHost_loops_upd_loop:
  "MatMultHost_loops A B C h =
   upd_loop (\<lambda>(r, c). elements C + (r * stride C + c)) (\<lambda>(r, c). MatMultElement A B r c)
     (List.product (iota (nat (height A))) (iota (nat (width B)))) h"
  unfolding MatMultHost_loops_def by (rule nested_for_upd_loop)

lemma index_pairs_image:
  "(\<lambda>(r, c). elements C + (r * stride C + c)) ` ({0..<height C} \<times> {0..<width C}) = cells C"
  unfolding cells_eq by (fastforce simp: image_iff)

lemma index_pairs_inj:
  assumes "width C \<le> stride C"
  shows "inj_on (\<lambda>(r, c). elements C + (r * stride C + c))
     (set (List.product (iota (nat (height C))) (iota (nat (width C)))))"
proof (rule inj_onI, clarsimp simp: set_iota_nat)
  fix r c r' c' :: int
  assume "0 \<le> c" "c < width C" "0 \<le> c'" "c' < width C"
    and "r * stride C + c = r' * stride C + c'"
  then show "r = r' \<and> c = c'"
    using assms by (intro cell_index_inj [where w = "width C" and s = "stride C"])
qed

lemma MatMultHost_loops_other:
  assumes "height A = height C" "width B = width C" "a \<notin> cells C"
  shows "MatMultHost_loops A B C h a = h a"
  unfolding MatMultHost_loops_upd_loop
  by (rule upd_loop_other) (use assms in \<open>simp add: set_iota_nat index_pairs_image\<close>)

lemma MatMultHost_loops_at:
  fixes h :: "addr \<Rightarrow> 'a::{zero,plus,times}"
  assumes "width A = height B" "height A = height C" "width B = width C"
    and "width C \<le> stride C" and "cells C \<inter> cells A = {}" and "cells C \<inter> cells B = {}"
    and "0 \<le> r" "r < height C" "0 \<le> c" "c < width C"
  shows "MatMultHost_loops A B C h (elements C + (r * stride C + c)) = MatMultElement A B r c h"
proof -
  let ?ad = "\<lambda>(r, c). elements C + (r * stride C + c)"
  let ?xs = "List.product (iota (nat (height A))) (iota (nat (width B)))"
  have "upd_loop ?ad (\<lambda>(r, c). MatMultElement A B r c) ?xs h (?ad (r, c)) =
      (\<lambda>(r, c). MatMultElement A B r c) (r, c) h"
  proof (rule upd_loop_at [where W = "cells C"])
    show "?ad ` set ?xs \<subseteq> cells C"
      using assms(2,3) by (simp add: set_iota_nat index_pairs_image)
    show "inj_on ?ad (set ?xs)"
      using index_pairs_inj [OF assms(4)] assms(2,3) by simp
    show "(r, c) \<in> set ?xs"
      using assms by (simp add: set_iota_nat)
  next
    fix j :: "int \<times> int" and h' :: "addr \<Rightarrow> 'a"
    assume j: "j \<in> set ?xs" and same: "\<And>a. a \<notin> cells C \<Longrightarrow> h' a = h a"
    obtain r' c' where [simp]: "j = (r', c')" by (cases j)
    from j have "0 \<le> r'" "r' < height A" "0 \<le> c'" "c' < width B"
      by (simp_all add: set_iota_nat)
    then have "MatMultElement A B r' c' h' = MatMultElement A B r' c' h"
      using same assms(1,5,6) by (intro MatMultElement_frame [where W = "cells C"]) auto
    then show "(\<lambda>(r, c). MatMultElement A B r c) j h' = (\<lambda>(r, c). MatMultElement A B r c) j h"
      by simp
  qed
  then show ?thesis
    by (simp add: MatMultHost_loops_upd_loop)
qed

lemma fold_add_sum_list:
  fixes a :: "'a::comm_monoid_add"
  shows "fold (\<lambda>k acc. acc + f k) xs a = a + sum_list (map f xs)"
  by (induction xs arbitrary: a) (simp_all add: add.assoc)

lemma MatMultElement_sum:
  fixes h :: "addr \<Rightarrow> 'a::semiring_0"
  shows "MatMultElement A B r c h =
    (\<Sum>k\<in>{0..<width A}. GetElement A r k h * GetElement B k c h)"
proof -
  have "MatMultElement A B r c h =
      sum_list (map (\<lambda>k. GetElement A r k h * GetElement B k c h) (iota (nat (width A))))"
    by (simp add: MatMultElement_def for_int_def fold_add_sum_list GetElement_def
        MatGetElement_def)
  also have "\<dots> = (\<Sum>k\<in>set (iota (nat (width A))). GetElement A r k h * GetElement B k c h)"
    by (rule sum_list_distinct_conv_sum_set) (rule distinct_iota)
  finally show ?thesis by (simp add: set_iota_nat)
qed

lemma fold_left_sum: "fold (\<lambda>k acc. acc + f k) (iota n) 0 = left_sum f n"
  by (induction n) (simp_all add: iota_def)

lemma MatMultElement_left_sum:
  "MatMultElement A B r c h =
     left_sum (\<lambda>k. GetElement A r k h * GetElement B k c h) (nat (width A))"
  by (simp add: MatMultElement_def for_int_def GetElement_def MatGetElement_def fold_left_sum)

lemma left_sum_sum:
  fixes f :: "int \<Rightarrow> 'a::comm_monoid_add"
  shows "left_sum f n = (\<Sum>k\<in>{0..<int n}. f k)"
proof -
  have "left_sum f n = sum_list (map f (iota n))"
    by (simp add: fold_left_sum [symmetric] fold_add_sum_list)
  also have "\<dots> = (\<Sum>k\<in>set (iota n). f k)"
    by (rule sum_list_distinct_conv_sum_set) (rule distinct_iota)
  finally show ?thesis by (simp add: set_iota)
qed

lemma MatMultHost_Return:
  assumes "width A = height B" "height A = height C" "width B = width C"
  shows "MatMultHost A B C s =
    Return (s\<lparr>host := (host s)\<lparr>cell := MatMultHost_loops A B C (cell (host s))\<rparr>\<rparr>)"
  using assms by (simp add: MatMultHost_def)

text \<open>
  C10. \<open>MatMultHost\<close> writes only the cells of C: with compatible shapes and the cells of
  A and of B disjoint from those of C, every cell outside C, so every element of A and
  of B, is unchanged, as are the allocator's data and the device. The descriptors are
  passed by value (\<open>const Matrix A, const Matrix B, Matrix C\<close>): the call cannot change
  the caller's descriptors, and the model returns the memory only.
\<close>

theorem MatMultHost_frame:
  assumes "width A = height B" "height A = height C" "width B = width C"
    and "cells A \<inter> cells C = {}" and "cells B \<inter> cells C = {}"
  shows "\<exists>s'. MatMultHost A B C s = Return s' \<and>
    (\<forall>a. a \<notin> cells C \<longrightarrow> cell (host s') a = cell (host s) a) \<and>
    (\<forall>a\<in>cells A \<union> cells B. cell (host s') a = cell (host s) a) \<and>
    brk (host s') = brk (host s) \<and> live (host s') = live (host s) \<and>
    device s' = device s \<and> scratch s' = scratch s"
proof -
  have "MatMultHost_loops A B C (cell (host s)) a = cell (host s) a" if "a \<notin> cells C" for a
    using assms(2,3) that by (rule MatMultHost_loops_other)
  moreover have "a \<notin> cells C" if "a \<in> cells A \<union> cells B" for a
    using that assms(4,5) by auto
  ultimately show ?thesis
    by (simp add: MatMultHost_Return [OF assms(1-3)])
qed

section \<open>The antidiagonal identity\<close>





lemma GetElement_in_cells:
  "0 \<le> r \<Longrightarrow> r < height X \<Longrightarrow> 0 \<le> c \<Longrightarrow> c < width X \<Longrightarrow>
     elements X + (r * stride X + c) \<in> cells X"
  by (auto simp: cells_eq)



section \<open>Parallel decomposition\<close>

lemma tile_index_less:
  fixes q r g T :: nat
  assumes "q < g" "r < T"
  shows "q * T + r < g * T"
proof -
  have "q * T + r < Suc q * T" using assms(2) by simp
  also have "\<dots> \<le> g * T" using assms(1) by (intro mult_le_mono1) simp
  finally show ?thesis .
qed

lemma worker_element_bij:
  assumes T: "0 < T"
  shows "bij_betw (\<lambda>(b, t). worker_element b (T, T) t)
     (set (workers (gx, gy) (T, T))) ({0..<int (gy * T)} \<times> {0..<int (gx * T)})"
proof (rule bij_betw_byWitness
    [where f' = "\<lambda>(r, c). ((nat c div T, nat r div T), (nat c mod T, nat r mod T))"])
  show "\<forall>x\<in>set (workers (gx, gy) (T, T)).
      (\<lambda>(r, c). ((nat c div T, nat r div T), (nat c mod T, nat r mod T)))
        ((\<lambda>(b, t). worker_element b (T, T) t) x) = x"
    by (auto simp: workers_def set_coords worker_element_def simp del: of_nat_add of_nat_mult)
  show "\<forall>y\<in>{0..<int (gy * T)} \<times> {0..<int (gx * T)}.
      (\<lambda>(b, t). worker_element b (T, T) t)
        ((\<lambda>(r, c). ((nat c div T, nat r div T), (nat c mod T, nat r mod T))) y) = y"
    by (auto simp: worker_element_def simp del: of_nat_add of_nat_mult)
  show "(\<lambda>(b, t). worker_element b (T, T) t) ` set (workers (gx, gy) (T, T))
      \<subseteq> {0..<int (gy * T)} \<times> {0..<int (gx * T)}"
    by (auto simp: workers_def set_coords worker_element_def tile_index_less
        simp flip: of_nat_mult of_nat_add)
  show "(\<lambda>(r, c). ((nat c div T, nat r div T), (nat c mod T, nat r mod T))) `
      ({0..<int (gy * T)} \<times> {0..<int (gx * T)}) \<subseteq> set (workers (gx, gy) (T, T))"
    using T by (auto simp: workers_def set_coords less_mult_imp_div_less nat_less_iff)
qed



lemma launch_k0_workers:
  "launch_k0 g b A B C h = fold (\<lambda>(blk, t). MatMult_k0 A B C blk b t) (workers g b) h"
  by (simp add: launch_k0_def workers_def fold_nested_product)

lemma MatMult_k0_worker_element:
  "MatMult_k0 A B C blk b t h =
     (case worker_element blk b t of (r, c) \<Rightarrow> SetElement C r c (MatMultElement A B r c h) h)"
  by (simp add: MatMult_k0_def worker_element_def Let_def)

lemma dimGrid_exact:
  assumes "0 \<le> width B" "width B < 2 ^ 31" "0 \<le> height A" "height A < 2 ^ 31"
    and "int BLOCK_SIZE dvd width B" "int BLOCK_SIZE dvd height A"
  shows "int (fst (dimGrid A B) * BLOCK_SIZE) = width B"
    and "int (snd (dimGrid A B) * BLOCK_SIZE) = height A"
proof -
  have w: "width B mod 2 ^ 32 = width B" and h: "height A mod 2 ^ 32 = height A"
    using assms(1-4) by simp_all
  have "int (nat (width B) div BLOCK_SIZE * BLOCK_SIZE) = width B"
    using assms(1,5) by (simp add: zdiv_int BLOCK_SIZE_def)
  then show "int (fst (dimGrid A B) * BLOCK_SIZE) = width B"
    using w by (simp add: dimGrid_def dimBlock_def)
  have "int (nat (height A) div BLOCK_SIZE * BLOCK_SIZE) = height A"
    using assms(3,6) by (simp add: zdiv_int BLOCK_SIZE_def)
  then show "int (snd (dimGrid A B) * BLOCK_SIZE) = height A"
    using h by (simp add: dimGrid_def dimBlock_def)
qed

text \<open>
  C2, for a result that does not overlap the operands. With compatible shapes,
  \<open>stride C \<ge> width C\<close>, and the cells of C disjoint from those of A and of B,
  \<open>MatMultHost\<close> leaves in every element (r, c) of C the products \<open>A[r,k] * B[k,c]\<close>,
  for k from 0 to \<open>width A - 1\<close> and on the memory before the call, added from the left
  starting from 0, in whatever arithmetic the elements have. A worker of the basic
  kernel stores that left-to-right sum, taken on the memory it starts from, in its
  element. Where addition is a commutative monoid, the left-to-right sum is the sum.
\<close>

theorem multiplication_is_dot_product:
  fixes s :: "('a::{zero,plus,times}) machine" and h :: "addr \<Rightarrow> 'a"
    and g :: "int \<Rightarrow> 'b::comm_monoid_add"
  assumes "width A = height B" "height A = height C" "width B = width C"
    and "width C \<le> stride C" and "cells C \<inter> cells A = {}" and "cells C \<inter> cells B = {}"
  shows "(\<exists>s'. MatMultHost A B C s = Return s' \<and>
      (\<forall>r c. 0 \<le> r \<and> r < height C \<and> 0 \<le> c \<and> c < width C \<longrightarrow>
         GetElement C r c (cell (host s')) =
           left_sum (\<lambda>k. GetElement A r k (cell (host s)) * GetElement B k c (cell (host s)))
             (nat (width A)))) \<and>
    (case worker_element blockIdx blockDim threadIdx of
       (r, c) \<Rightarrow>
         GetElement dC r c (MatMult_k0 dA dB dC blockIdx blockDim threadIdx h) =
           left_sum (\<lambda>k. GetElement dA r k h * GetElement dB k c h) (nat (width dA))) \<and>
    left_sum g n = (\<Sum>k\<in>{0..<int n}. g k)"
proof -
  have "GetElement C r c (MatMultHost_loops A B C (cell (host s))) =
      left_sum (\<lambda>k. GetElement A r k (cell (host s)) * GetElement B k c (cell (host s)))
        (nat (width A))"
    if "0 \<le> r" "r < height C" "0 \<le> c" "c < width C" for r c
    using MatMultHost_loops_at [OF assms that, of "cell (host s)"]
    by (simp add: MatMultElement_left_sum) (simp add: GetElement_def MatGetElement_def)
  then have host: "\<exists>s'. MatMultHost A B C s = Return s' \<and>
      (\<forall>r c. 0 \<le> r \<and> r < height C \<and> 0 \<le> c \<and> c < width C \<longrightarrow>
         GetElement C r c (cell (host s')) =
           left_sum (\<lambda>k. GetElement A r k (cell (host s)) * GetElement B k c (cell (host s)))
             (nat (width A)))"
    by (simp add: MatMultHost_Return [OF assms(1-3)])
  have "GetElement dC r c (SetElement dC r c (MatMultElement dA dB r c h) h) =
      left_sum (\<lambda>k. GetElement dA r k h * GetElement dB k c h) (nat (width dA))" for r c
    by (simp add: MatMultElement_left_sum)
      (simp add: GetElement_def MatGetElement_def SetElement_def MatSetElement_def)
  then have worker: "case worker_element blockIdx blockDim threadIdx of
       (r, c) \<Rightarrow>
         GetElement dC r c (MatMult_k0 dA dB dC blockIdx blockDim threadIdx h) =
           left_sum (\<lambda>k. GetElement dA r k h * GetElement dB k c h) (nat (width dA))"
    by (simp add: MatMult_k0_worker_element split: prod.splits)
  from host worker left_sum_sum [of g n] show ?thesis by blast
qed

section \<open>The optimized kernel\<close>

lemma MatMultElement_dot_upto:
  "MatMultElement A B r c h = dot_upto A B r c h (nat (width A))"
  by (simp add: MatMultElement_def dot_upto_def for_int_def)

lemma iota_0: "iota 0 = []"
  by (simp add: iota_def)

lemma iota_add: "iota (n + m) = iota n @ map (\<lambda>k. int n + k) (iota m)"
  by (induction m) (simp_all add: iota_0 iota_Suc)

lemma dot_upto_add:
  "dot_upto A B r c h (n + m) =
     fold (\<lambda>k C_rc. C_rc + h (elements A + (r * stride A + (int n + k))) *
                            h (elements B + ((int n + k) * stride B + c)))
       (iota m) (dot_upto A B r c h n)"
  by (simp add: dot_upto_def iota_add fold_map comp_def)

lemma k1_stage_apply:
  "k1_stage Asub Bsub w h t sh =
     sh(int (snd t) * w + int (fst t) := GetElement Asub (int (snd t)) (int (fst t)) h,
        w * w + (int (snd t) * w + int (fst t)) := GetElement Bsub (int (snd t)) (int (fst t)) h)"
  by (simp add: k1_stage_def Let_def)

lemma thread_index_bounds:
  assumes "t \<in> set (coords (T, T))"
  shows "0 \<le> int (snd t) * int T + int (fst t)"
    and "int (snd t) * int T + int (fst t) < int T * int T"
proof -
  from assms have "fst t < T" "snd t < T" by (auto simp: set_coords)
  then have "snd t * T + fst t < T * T" by (rule tile_index_less [rotated])
  then show "int (snd t) * int T + int (fst t) < int T * int T"
    by (simp flip: of_nat_mult of_nat_add)
  show "0 \<le> int (snd t) * int T + int (fst t)" by simp
qed

lemma thread_index_inj:
  assumes "t \<in> set (coords (T, T))" "t' \<in> set (coords (T, T))"
    and "int (snd t) * int T + int (fst t) = int (snd t') * int T + int (fst t')"
  shows "t = t'"
proof -
  from assms(1,2) have "fst t < T" "fst t' < T" by (auto simp: set_coords)
  then have "int (snd t) = int (snd t') \<and> int (fst t) = int (fst t')"
    using assms(3) by (intro cell_index_inj [where w = "int T" and s = "int T"]) auto
  then show ?thesis by (simp add: prod_eq_iff)
qed

lemma k1_stage_loop:
  assumes "set ts \<subseteq> set (coords (T, T))" and "t \<in> set ts"
  shows "fold (k1_stage Asub Bsub (int T) h) ts sh (int (snd t) * int T + int (fst t)) =
           GetElement Asub (int (snd t)) (int (fst t)) h \<and>
         fold (k1_stage Asub Bsub (int T) h) ts sh
             (int T * int T + (int (snd t) * int T + int (fst t))) =
           GetElement Bsub (int (snd t)) (int (fst t)) h"
  using assms
proof (induction ts arbitrary: t rule: rev_induct)
  case Nil
  then show ?case by simp
next
  case (snoc x xs)
  have x: "x \<in> set (coords (T, T))" and t: "t \<in> set (coords (T, T))"
    using snoc.prems by auto
  let ?p = "\<lambda>t. int (snd t) * int T + int (fst t)"
  let ?g = "fold (k1_stage Asub Bsub (int T) h) xs sh"
  note bx = thread_index_bounds [OF x] and bt = thread_index_bounds [OF t]
  have step: "fold (k1_stage Asub Bsub (int T) h) (xs @ [x]) sh =
      ?g(?p x := GetElement Asub (int (snd x)) (int (fst x)) h,
         int T * int T + ?p x := GetElement Bsub (int (snd x)) (int (fst x)) h)"
    by (simp add: k1_stage_apply)
  have d0: "?p x \<noteq> int T * int T + ?p x"
    using bx by linarith
  show ?case
  proof (cases "t = x")
    case True
    show ?thesis unfolding step True using d0 by simp
  next
    case False
    then have "t \<in> set xs" using snoc.prems(2) by simp
    then have IH: "?g (?p t) = GetElement Asub (int (snd t)) (int (fst t)) h \<and>
         ?g (int T * int T + ?p t) = GetElement Bsub (int (snd t)) (int (fst t)) h"
      using snoc.prems(1) by (intro snoc.IH) auto
    have ne: "?p t \<noteq> ?p x"
      using thread_index_inj [OF t x] False by auto
    have d1: "?p t \<noteq> int T * int T + ?p x" and d2: "int T * int T + ?p t \<noteq> ?p x"
      using bx bt by linarith+
    show ?thesis unfolding step using IH ne d1 d2 by simp
  qed
qed

lemma fold_fun_upd_distinct:
  "distinct ts \<Longrightarrow>
     fold (\<lambda>t acc. acc(t := g t (acc t))) ts acc t = (if t \<in> set ts then g t (acc t) else acc t)"
  by (induction ts arbitrary: acc) auto

lemma GetElement_GetSubMatrix:
  "GetElement (GetSubMatrix A R C T) r c h = h (elements A + ((R * T + r) * stride A + (C * T + c)))"
  by (simp add: GetElement_def MatGetElement_def GetSubMatrix_def MatInit_def algebra_simps)

lemma SetElement_GetSubMatrix:
  "SetElement (GetSubMatrix A R C T) r c v h =
     h(elements A + ((R * T + r) * stride A + (C * T + c)) := v)"
  by (simp add: SetElement_def MatSetElement_def GetSubMatrix_def MatInit_def algebra_simps)

lemma for_int_0: "for_int 0 body s = s"
  by (simp add: for_int_def iota_0)

lemma for_int_Suc: "for_int (int (Suc n)) body s = body (int n) (for_int (int n) body s)"
  unfolding for_int_def nat_int by (simp add: iota_Suc)

lemma for_int_nat: "for_int (int n) body s = fold (\<lambda>j. body (int j)) [0..<n] s"
  by (simp add: for_int_def iota_def fold_map comp_def)

lemma k1_accumulate_staged:
  assumes t: "t \<in> set (coords (T, T))"
  shows "k1_accumulate (int T)
           (fold (k1_stage (GetSubMatrix A R K (int T)) (GetSubMatrix B K C (int T)) (int T) h)
              (coords (T, T)) sh) t a =
         fold (\<lambda>k a. a + h (elements A + ((R * int T + int (snd t)) * stride A + (K * int T + k))) *
                          h (elements B + ((K * int T + k) * stride B + (C * int T + int (fst t)))))
           (iota T) a"
proof -
  let ?sh = "fold (k1_stage (GetSubMatrix A R K (int T)) (GetSubMatrix B K C (int T)) (int T) h)
              (coords (T, T)) sh"
  have tb: "fst t < T" "snd t < T" using t by (auto simp: set_coords)
  have A: "?sh (int (snd t) * int T + int j) =
      h (elements A + ((R * int T + int (snd t)) * stride A + (K * int T + int j)))"
    if "j < T" for j
  proof -
    have "(j, snd t) \<in> set (coords (T, T))" using that tb by (simp add: set_coords)
    from k1_stage_loop [OF subset_refl this, of "GetSubMatrix A R K (int T)"
        "GetSubMatrix B K C (int T)" h sh]
    show ?thesis by (simp add: GetElement_GetSubMatrix)
  qed
  have B: "?sh (int T * int T + (int j * int T + int (fst t))) =
      h (elements B + ((K * int T + int j) * stride B + (C * int T + int (fst t))))"
    if "j < T" for j
  proof -
    have "(fst t, j) \<in> set (coords (T, T))" using that tb by (simp add: set_coords)
    from k1_stage_loop [OF subset_refl this, of "GetSubMatrix A R K (int T)"
        "GetSubMatrix B K C (int T)" h sh]
    show ?thesis by (simp add: GetElement_GetSubMatrix)
  qed
  have "k1_accumulate (int T) ?sh t a =
      fold (\<lambda>j a. a + ?sh (int (snd t) * int T + int j) *
                       ?sh (int T * int T + (int j * int T + int (fst t)))) [0..<T] a"
    by (simp add: k1_accumulate_def Let_def for_int_nat)
  also have "\<dots> =
      fold (\<lambda>j a. a + h (elements A + ((R * int T + int (snd t)) * stride A + (K * int T + int j))) *
                       h (elements B + ((K * int T + int j) * stride B + (C * int T + int (fst t)))))
        [0..<T] a"
    by (rule fold_cong) (simp_all add: A B)
  also have "\<dots> =
      fold (\<lambda>k a. a + h (elements A + ((R * int T + int (snd t)) * stride A + (K * int T + k))) *
                       h (elements B + ((K * int T + k) * stride B + (C * int T + int (fst t)))))
        (iota T) a"
    by (simp add: iota_def fold_map comp_def)
  finally show ?thesis .
qed

lemma k1_tile_snd:
  assumes t: "t \<in> set (coords (T, T))"
  shows "snd (k1_tile A B R C (int T) (coords (T, T)) h K st) t =
         fold (\<lambda>k a. a + h (elements A + ((R * int T + int (snd t)) * stride A + (K * int T + k))) *
                          h (elements B + ((K * int T + k) * stride B + (C * int T + int (fst t)))))
           (iota T) (snd st t)"
  using t
  by (simp add: k1_tile_def Let_def fold_fun_upd_distinct distinct_coords k1_accumulate_staged)

lemma k1_loop:
  assumes t: "t \<in> set (coords (T, T))"
  shows "snd (for_int (int n) (k1_tile A B R C (int T) (coords (T, T)) h) (sh0, \<lambda>t. 0)) t =
         dot_upto A B (R * int T + int (snd t)) (C * int T + int (fst t)) h (n * T)"
proof (induction n)
  case 0
  show ?case by (simp add: for_int_0 dot_upto_def iota_0)
next
  case (Suc n)
  have "dot_upto A B (R * int T + int (snd t)) (C * int T + int (fst t)) h (Suc n * T) =
      dot_upto A B (R * int T + int (snd t)) (C * int T + int (fst t)) h (n * T + T)"
    by (simp add: add.commute)
  then show ?case
    using Suc by (simp only: for_int_Suc k1_tile_snd [OF t] dot_upto_add of_nat_mult)
qed

lemma sdiv_nonneg: "0 \<le> a \<Longrightarrow> 0 < b \<Longrightarrow> a sdiv b = a div (b :: int)"
  by (auto simp: signed_divide_int_def sgn_if)

lemma MatMult_k1_frozen:
  assumes T: "0 < T" and wA: "0 \<le> width A" "int T dvd width A"
  shows "MatMult_k1 A B C blk (T, T) sh0 h =
     upd_loop (\<lambda>t. elements C + ((int (snd blk) * int T + int (snd t)) * stride C +
                                  (int (fst blk) * int T + int (fst t))))
       (\<lambda>t h'. MatMultElement A B (int (snd blk) * int T + int (snd t))
                  (int (fst blk) * int T + int (fst t)) h)
       (coords (T, T)) h"
proof -
  define n where "n = nat (width A) div T"
  have W: "width A sdiv int T = int n"
    using T wA(1) by (simp add: sdiv_nonneg n_def zdiv_int)
  have nT: "n * T = nat (width A)"
  proof -
    have "int T dvd int (nat (width A))" using wA by simp
    then have "T dvd nat (width A)" by (simp only: int_dvd_int_iff)
    then show ?thesis by (simp add: n_def)
  qed
  have acc: "snd (for_int (int n) (k1_tile A B (int (snd blk)) (int (fst blk)) (int T)
                (coords (T, T)) h) (sh0, \<lambda>t. 0)) t =
      MatMultElement A B (int (snd blk) * int T + int (snd t))
        (int (fst blk) * int T + int (fst t)) h"
    if "t \<in> set (coords (T, T))" for t
    by (simp add: k1_loop [OF that] MatMultElement_dot_upto nT)
  show ?thesis
    unfolding MatMult_k1_def Let_def fst_conv snd_conv W upd_loop_def
    by (rule fold_cong) (simp_all add: acc SetElement_GetSubMatrix fun_eq_iff)
qed

lemma k0_block_upd_loop:
  "fold (MatMult_k0 A B C blk (T, T)) ts h =
     upd_loop (\<lambda>t. elements C + ((int (snd blk) * int T + int (snd t)) * stride C +
                                  (int (fst blk) * int T + int (fst t))))
       (\<lambda>t. MatMultElement A B (int (snd blk) * int T + int (snd t))
                  (int (fst blk) * int T + int (fst t)))
       ts h"
  unfolding upd_loop_def
  by (rule fold_cong)
    (simp_all add: MatMult_k0_def Let_def SetElement_def MatSetElement_def fun_eq_iff)

lemma block_in_range:
  assumes "blk \<in> set (coords g)" "t \<in> set (coords (T, T))"
    and "int (fst g * T) \<le> W" "int (snd g * T) \<le> H"
  shows "0 \<le> int (snd blk) * int T + int (snd t)"
    and "int (snd blk) * int T + int (snd t) < H"
    and "0 \<le> int (fst blk) * int T + int (fst t)"
    and "int (fst blk) * int T + int (fst t) < W"
proof -
  from assms(1,2) have b: "fst blk < fst g" "snd blk < snd g" "fst t < T" "snd t < T"
    by (auto simp: set_coords)
  have "snd blk * T + snd t < snd g * T" using b by (intro tile_index_less)
  then have "int (snd blk * T + snd t) < H" using assms(4) by linarith
  then show "int (snd blk) * int T + int (snd t) < H" by simp
  have "fst blk * T + fst t < fst g * T" using b by (intro tile_index_less)
  then have "int (fst blk * T + fst t) < W" using assms(3) by linarith
  then show "int (fst blk) * int T + int (fst t) < W" by simp
qed simp_all

lemma MatMult_k1_eq_k0_block:
  fixes h :: "addr \<Rightarrow> 'a::{zero,plus,times}"
  assumes T: "0 < T" and wA: "0 \<le> width A" "int T dvd width A"
    and shapes: "width A = height B" "height A = height C" "width B = width C"
    and disj: "cells C \<inter> cells A = {}" "cells C \<inter> cells B = {}"
    and blk: "blk \<in> set (coords g)"
    and grid: "int (fst g * T) \<le> width C" "int (snd g * T) \<le> height C"
  shows "MatMult_k1 A B C blk (T, T) sh0 h = fold (MatMult_k0 A B C blk (T, T)) (coords (T, T)) h"
proof -
  let ?r = "\<lambda>t. int (snd blk) * int T + int (snd t)"
  let ?c = "\<lambda>t. int (fst blk) * int T + int (fst t)"
  have "upd_loop (\<lambda>t. elements C + (?r t * stride C + ?c t))
          (\<lambda>t. MatMultElement A B (?r t) (?c t)) (coords (T, T)) h =
        upd_loop (\<lambda>t. elements C + (?r t * stride C + ?c t))
          (\<lambda>t h'. MatMultElement A B (?r t) (?c t) h) (coords (T, T)) h"
  proof (rule upd_loop_frozen [where W = "cells C"])
    show "(\<lambda>t. elements C + (?r t * stride C + ?c t)) ` set (coords (T, T)) \<subseteq> cells C"
    proof clarify
      fix t assume "t \<in> set (coords (T, T))"
      from block_in_range [OF blk this grid]
      show "elements C + (?r t * stride C + ?c t) \<in> cells C"
        by (intro GetElement_in_cells)
    qed
  next
    fix t :: dim3 and h' :: "addr \<Rightarrow> 'a"
    assume t: "t \<in> set (coords (T, T))" and same: "\<And>a. a \<notin> cells C \<Longrightarrow> h' a = h a"
    from block_in_range [OF blk t grid] shapes
    show "MatMultElement A B (?r t) (?c t) h' = MatMultElement A B (?r t) (?c t) h"
      using same disj by (intro MatMultElement_frame [where W = "cells C"]) auto
  qed
  then show ?thesis
    by (simp only: MatMult_k1_frozen [OF T wA] k0_block_upd_loop)
qed

lemma launch_k1_eq_launch_k0:
  fixes h :: "addr \<Rightarrow> 'a::{zero,plus,times}"
  assumes T: "0 < T" and wA: "0 \<le> width A" "int T dvd width A"
    and shapes: "width A = height B" "height A = height C" "width B = width C"
    and disj: "cells C \<inter> cells A = {}" "cells C \<inter> cells B = {}"
    and grid: "int (fst g * T) \<le> width C" "int (snd g * T) \<le> height C"
  shows "launch_k1 g (T, T) sh0 A B C h = launch_k0 g (T, T) A B C h"
  unfolding launch_k1_def launch_k0_def
  by (rule fold_cong)
    (simp_all add: MatMult_k1_eq_k0_block [OF T wA shapes disj _ grid] fun_eq_iff)

lemma launch_k0_upd_loop:
  "launch_k0 g b A B C h =
     upd_loop (\<lambda>(blk, t). case worker_element blk b t of (r, c) \<Rightarrow> elements C + (r * stride C + c))
       (\<lambda>(blk, t). case worker_element blk b t of (r, c) \<Rightarrow> MatMultElement A B r c)
       (workers g b) h"
  unfolding launch_k0_workers upd_loop_def
  by (rule fold_cong)
    (auto simp: MatMult_k0_worker_element SetElement_def MatSetElement_def fun_eq_iff
      split: prod.splits)

lemma launch_k0_eq_host_loops:
  fixes h :: "addr \<Rightarrow> 'a::{zero,plus,times}"
  assumes T: "0 < T"
    and shapes: "width A = height B" "height A = height C" "width B = width C"
    and stride: "width C \<le> stride C"
    and disj: "cells C \<inter> cells A = {}" "cells C \<inter> cells B = {}"
    and grid: "int (fst g * T) = width C" "int (snd g * T) = height C"
  shows "launch_k0 g (T, T) A B C h = MatMultHost_loops A B C h"
proof (rule ext)
  fix a
  let ?we = "\<lambda>(blk, t). worker_element blk (T, T) t"
  let ?ix = "\<lambda>(r, c). elements C + (r * stride C + c)"
  let ?ad = "\<lambda>(blk, t). case worker_element blk (T, T) t of (r, c) \<Rightarrow> elements C + (r * stride C + c)"
  let ?val = "\<lambda>(blk, t). case worker_element blk (T, T) t of (r, c) \<Rightarrow> MatMultElement A B r c"
  let ?ws = "workers g (T, T)"
  have bij: "bij_betw ?we (set ?ws) ({0..<height C} \<times> {0..<width C})"
    using worker_element_bij [OF T, of "fst g" "snd g"] grid by simp
  have ad: "?ad = ?ix \<circ> ?we"
    by (auto simp: fun_eq_iff)
  have img: "?ad ` set ?ws = cells C"
  proof -
    have "?ad ` set ?ws = ?ix ` (?we ` set ?ws)"
      unfolding ad by (rule image_comp [symmetric])
    also have "?we ` set ?ws = {0..<height C} \<times> {0..<width C}"
      using bij by (simp add: bij_betw_def)
    finally show ?thesis by (simp only: index_pairs_image)
  qed
  have inj: "inj_on ?ad (set ?ws)"
    unfolding ad
  proof (rule comp_inj_on)
    show "inj_on ?we (set ?ws)" using bij by (simp add: bij_betw_def)
    have "inj_on ?ix ({0..<height C} \<times> {0..<width C})"
      using index_pairs_inj [OF stride] by (simp add: set_iota_nat)
    then show "inj_on ?ix (?we ` set ?ws)"
      using bij by (simp add: bij_betw_def)
  qed
  show "launch_k0 g (T, T) A B C h a = MatMultHost_loops A B C h a"
  proof (cases "a \<in> cells C")
    case False
    have "upd_loop ?ad ?val ?ws h a = h a"
      by (rule upd_loop_other) (simp add: img False)
    then show ?thesis
      using False shapes by (simp add: launch_k0_upd_loop MatMultHost_loops_other)
  next
    case True
    then obtain r c where rc: "0 \<le> r" "r < height C" "0 \<le> c" "c < width C"
      and a: "a = elements C + (r * stride C + c)"
      by (auto simp: cells_eq)
    have "(r, c) \<in> ?we ` set ?ws"
      using bij rc by (simp add: bij_betw_def)
    then obtain blk t where w: "(blk, t) \<in> set ?ws" and we: "worker_element blk (T, T) t = (r, c)"
      by auto
    have "upd_loop ?ad ?val ?ws h (?ad (blk, t)) = ?val (blk, t) h"
    proof (rule upd_loop_at [where W = "cells C"])
      show "?ad ` set ?ws \<subseteq> cells C" by (simp add: img)
      show "inj_on ?ad (set ?ws)" by (rule inj)
      show "(blk, t) \<in> set ?ws" by (rule w)
    next
      fix j :: "dim3 \<times> dim3" and h' :: "addr \<Rightarrow> 'a"
      assume j: "j \<in> set ?ws" and same: "\<And>a. a \<notin> cells C \<Longrightarrow> h' a = h a"
      obtain r' c' where rc': "?we j = (r', c')" by (cases "?we j")
      have "?we j \<in> {0..<height C} \<times> {0..<width C}"
        using bij j by (auto simp: bij_betw_def)
      then have "0 \<le> r'" "r' < height A" "0 \<le> c'" "c' < width B"
        using rc' shapes by auto
      then have "MatMultElement A B r' c' h' = MatMultElement A B r' c' h"
        using same shapes(1) disj by (intro MatMultElement_frame [where W = "cells C"]) auto
      then show "?val j h' = ?val j h"
        using rc' by (auto split: prod.splits)
    qed
    then have "launch_k0 g (T, T) A B C h a = MatMultElement A B r c h"
      by (simp add: launch_k0_upd_loop we a)
    moreover have "MatMultHost_loops A B C h a = MatMultElement A B r c h"
      unfolding a using shapes stride disj rc by (rule MatMultHost_loops_at)
    ultimately show ?thesis by simp
  qed
qed

section \<open>The orchestrator\<close>

lemma MatInitGPU_eq:
  "MatInitGPU h w m =
     ((MatInit h w)\<lparr>elements := brk m\<rparr>,
      m\<lparr>brk := brk m + int (size_bytes (MatInit h w) div sizeof_float),
        live := brk m # live m,
        cell := memset_cells (brk m) 0 (size_bytes (MatInit h w)) (cell m)\<rparr>)"
  by (simp add: MatInitGPU_def malloc_cells_def Let_def)

lemma MatMultGPU_host_cells:
  fixes s :: "('a::{zero,plus,times}) machine"
    and A :: "'m Matrix_scheme" and B :: "'n Matrix_scheme" and C :: "'k Matrix_scheme"
  defines "p \<equiv> brk (device s)"
  defines "dA \<equiv> (MatInit (height A) (width A))\<lparr>elements := p\<rparr>"
  defines "c1 \<equiv> memcpy_cells p (cell (host s)) (elements A) (size_bytes A)
                  (memset_cells p 0 (size_bytes dA) (cell (device s)))"
  defines "pB \<equiv> p + int (size_bytes dA div sizeof_float)"
  defines "dB \<equiv> (MatInit (height B) (width B))\<lparr>elements := pB\<rparr>"
  defines "c2 \<equiv> memcpy_cells pB (cell (host s)) (elements B) (size_bytes B)
                  (memset_cells pB 0 (size_bytes dB) c1)"
  defines "pC \<equiv> pB + int (size_bytes dB div sizeof_float)"
  defines "dC \<equiv> (MatInit (height C) (width C))\<lparr>elements := pC\<rparr>"
  defines "c3 \<equiv> memset_cells pC 0 (size_bytes dC) c2"
  assumes shapes: "width A = height B" "height A = height C" "width B = width C"
  shows "\<exists>s1. MatMultGPU A B C optimized s = Return s1 \<and>
    cell (host s1) =
      memcpy_cells (elements C)
        (if optimized then launch_k1 (dimGrid A B) dimBlock (scratch s) dA dB dC c3
         else launch_k0 (dimGrid A B) dimBlock dA dB dC c3)
        pC (size_bytes C) (cell (host s)) \<and>
    brk (host s1) = brk (host s) \<and> live (host s1) = live (host s) \<and>
    scratch s1 = scratch s"
  using shapes
  unfolding p_def dA_def c1_def pB_def dB_def c2_def pC_def dC_def c3_def
  by (simp add: MatMultGPU_def MatInitGPU_eq cudaMemcpy_def free_cells_def Let_def)





lemma index_bounds:
  fixes r c h w :: int
  assumes "0 \<le> r" "r < h" "0 \<le> c" "c < w"
  shows "0 \<le> r * w + c" and "r * w + c < h * w"
proof -
  show "0 \<le> r * w + c" using assms by simp
  have "r * w + c < (r + 1) * w" using assms(4) by (simp add: algebra_simps)
  also have "\<dots> \<le> h * w" using assms by (intro mult_right_mono) auto
  finally show "r * w + c < h * w" .
qed

lemma index_decompose:
  fixes i h w :: int
  assumes "0 \<le> i" "i < h * w" "0 \<le> w"
  obtains r c where "0 \<le> r" "r < h" "0 \<le> c" "c < w" "i = r * w + c"
proof -
  have w: "0 < w"
    using assms by (cases "w = 0") auto
  have m: "0 \<le> i mod w" "i mod w < w" using w by simp_all
  have d: "0 \<le> i div w" using assms(1) w by (simp add: pos_imp_zdiv_nonneg_iff)
  have eq: "i = i div w * w + i mod w" by simp
  have "i div w < h"
  proof (rule ccontr)
    assume "\<not> i div w < h"
    then have "h * w \<le> i div w * w" using w by (intro mult_right_mono) auto
    also have "\<dots> \<le> i" using eq m(1) by linarith
    finally show False using assms(2) by simp
  qed
  then show ?thesis using that [of "i div w" "i mod w"] d m eq by blast
qed

lemma cells_whole_subset:
  assumes "stride X = width X"
  shows "cells X \<subseteq> {elements X..<elements X + height X * width X}"
proof
  fix a assume "a \<in> cells X"
  then obtain r c where rc: "0 \<le> r" "r < height X" "0 \<le> c" "c < width X"
    and a: "a = elements X + (r * stride X + c)"
    by (auto simp: cells_eq)
  from index_bounds [OF rc] show "a \<in> {elements X..<elements X + height X * width X}"
    by (simp add: a assms)
qed

lemma int32_id: "- (2 ^ 31) \<le> x \<Longrightarrow> x < 2 ^ 31 \<Longrightarrow> int32 x = x"
  by (simp add: int32_def)

lemma sized_matrix_MatInit:
  assumes "0 \<le> h" "h < 2 ^ 31" "0 \<le> w" "w < 2 ^ 31" "h * w < 2 ^ 31"
  shows "sized_matrix ((MatInit h w)\<lparr>elements := p\<rparr>)"
proof -
  have nn: "0 \<le> h * w" using assms by simp
  then have "int32 (h * w) = h * w"
    using assms(5) by (intro int32_id) simp_all
  moreover have "(h * w * 4) mod 2 ^ 64 = h * w * 4"
    using nn assms(5) by (intro mod_pos_pos_trivial) simp_all
  ultimately show ?thesis
    using assms by (simp add: sized_matrix_def MatInit_def sizeof_float_def nat_mult_distrib)
qed

lemma sized_matrix_cells_count:
  "sized_matrix X \<Longrightarrow> size_bytes X div sizeof_float = nat (height X * width X)"
  by (simp add: sized_matrix_def sizeof_float_def)

text \<open>
  What the device computes: the product of the operands read as contiguous buffers
  (the copies to the device ignore the stride), stored contiguously at the pointer of C.
\<close>

lemma device_result_contiguous:
  fixes s :: "('a::{zero,plus,times}) machine"
    and A :: "'m Matrix_scheme" and B :: "'n Matrix_scheme" and C :: "'k Matrix_scheme"
  assumes sized: "sized_matrix A" "sized_matrix B" "sized_matrix C"
    and shapes: "width A = height B" "height A = height C" "width B = width C"
    and tiles: "int BLOCK_SIZE dvd height A" "int BLOCK_SIZE dvd width A"
      "int BLOCK_SIZE dvd width B"
  shows "\<exists>s1. MatMultGPU A B C optimized s = Return s1 \<and>
    (\<forall>r c. 0 \<le> r \<and> r < height C \<and> 0 \<le> c \<and> c < width C \<longrightarrow>
       cell (host s1) (elements C + (r * width C + c)) =
         MatMultElement (A\<lparr>stride := width A\<rparr>) (B\<lparr>stride := width B\<rparr>) r c (cell (host s))) \<and>
    (\<forall>a. \<not> (elements C \<le> a \<and> a < elements C + height C * width C) \<longrightarrow>
       cell (host s1) a = cell (host s) a) \<and>
    brk (host s1) = brk (host s) \<and> live (host s1) = live (host s) \<and>
    scratch s1 = scratch s"
proof -
  define p where "p = brk (device s)"
  define dA where "dA = (MatInit (height A) (width A))\<lparr>elements := p\<rparr>"
  define c1 where "c1 = memcpy_cells p (cell (host s)) (elements A) (size_bytes A)
                  (memset_cells p 0 (size_bytes dA) (cell (device s)))"
  define pB where "pB = p + int (size_bytes dA div sizeof_float)"
  define dB where "dB = (MatInit (height B) (width B))\<lparr>elements := pB\<rparr>"
  define c2 where "c2 = memcpy_cells pB (cell (host s)) (elements B) (size_bytes B)
                  (memset_cells pB 0 (size_bytes dB) c1)"
  define pC where "pC = pB + int (size_bytes dB div sizeof_float)"
  define dC where "dC = (MatInit (height C) (width C))\<lparr>elements := pC\<rparr>"
  define c3 where "c3 = memset_cells pC 0 (size_bytes dC) c2"
  define c4 where "c4 = (if optimized
      then launch_k1 (dimGrid A B) dimBlock (scratch s) dA dB dC c3
      else launch_k0 (dimGrid A B) dimBlock dA dB dC c3)"
  define h where "h = cell (host s)"
  from MatMultGPU_host_cells [OF shapes, of optimized s]
  obtain s1 where run: "MatMultGPU A B C optimized s = Return s1"
    and hc: "cell (host s1) = memcpy_cells (elements C) c4 pC (size_bytes C) h"
    and rest: "brk (host s1) = brk (host s)" "live (host s1) = live (host s)"
      "scratch s1 = scratch s"
    unfolding p_def dA_def c1_def pB_def dB_def c2_def pC_def dC_def c3_def c4_def h_def
    by blast
  \<comment> \<open>dimensions\<close>
  have rA: "0 \<le> height A" "height A < 2 ^ 31" "0 \<le> width A" "width A < 2 ^ 31"
    and rB: "0 \<le> height B" "height B < 2 ^ 31" "0 \<le> width B" "width B < 2 ^ 31"
    and rC: "0 \<le> height C" "height C < 2 ^ 31" "0 \<le> width C" "width C < 2 ^ 31"
    using sized by (simp_all add: sized_matrix_def)
  have pr: "height A * width A < 2 ^ 31" "height B * width B < 2 ^ 31"
    "height C * width C < 2 ^ 31"
    using sized by (simp_all add: sized_matrix_def)
  have wdA: "sized_matrix dA" and wdB: "sized_matrix dB" and wdC: "sized_matrix dC"
    unfolding dA_def dB_def dC_def using rA rB rC pr by (simp_all add: sized_matrix_MatInit)
  have fA [simp]: "height dA = height A" "width dA = width A" "stride dA = width A" "elements dA = p"
    and fB [simp]: "height dB = height B" "width dB = width B" "stride dB = width B" "elements dB = pB"
    and fC [simp]: "height dC = height C" "width dC = width C" "stride dC = width C" "elements dC = pC"
    by (simp_all add: dA_def dB_def dC_def MatInit_def)
  have nA: "size_bytes A div sizeof_float = nat (height A * width A)"
    and nB: "size_bytes B div sizeof_float = nat (height B * width B)"
    and nC: "size_bytes C div sizeof_float = nat (height C * width C)"
    and ndA: "size_bytes dA div sizeof_float = nat (height A * width A)"
    and ndB: "size_bytes dB div sizeof_float = nat (height B * width B)"
    and ndC: "size_bytes dC div sizeof_float = nat (height C * width C)"
    using sized wdA wdB wdC by (simp_all add: sized_matrix_cells_count)
  have pos: "0 \<le> height A * width A" "0 \<le> height B * width B" "0 \<le> height C * width C"
    using rA rB rC by simp_all
  have pB: "pB = p + height A * width A" and pC: "pC = pB + height B * width B"
    using pos by (simp_all add: pB_def pC_def ndA ndB)
  \<comment> \<open>the staged operands\<close>
  have stA: "c3 (p + i) = h (elements A + i)" if "0 \<le> i" "i < height A * width A" for i
    using that pos
    by (simp add: c3_def c2_def c1_def memcpy_cells_def memset_cells_def nA ndA ndB ndC pB pC h_def)
  have stB: "c3 (pB + i) = h (elements B + i)" if "0 \<le> i" "i < height B * width B" for i
    using that pos
    by (simp add: c3_def c2_def memcpy_cells_def memset_cells_def nB ndB ndC pC h_def)
  \<comment> \<open>the three device buffers do not overlap\<close>
  have cA: "cells dA \<subseteq> {p..<pB}" and cB: "cells dB \<subseteq> {pB..<pC}" and cC: "cells dC \<subseteq> {pC..}"
    using cells_whole_subset [of dA] cells_whole_subset [of dB] cells_whole_subset [of dC]
    by (auto simp: pB pC)
  have le: "p \<le> pB" "pB \<le> pC"
    using pos by (simp_all add: pB pC)
  have "x \<notin> cells dA" "x \<notin> cells dB" if "x \<in> cells dC" for x
  proof -
    from that cC have x: "pC \<le> x" by auto
    show "x \<notin> cells dA"
    proof
      assume "x \<in> cells dA"
      with cA have "x < pB" by auto
      with x le show False by linarith
    qed
    show "x \<notin> cells dB"
    proof
      assume "x \<in> cells dB"
      with cB have "x < pC" by auto
      with x show False by linarith
    qed
  qed
  then have disj: "cells dC \<inter> cells dA = {}" "cells dC \<inter> cells dB = {}"
    by blast+
  \<comment> \<open>both kernels compute what the host loops compute on the staged operands\<close>
  have T: "0 < BLOCK_SIZE" by (simp add: BLOCK_SIZE_def)
  have grid: "int (fst (dimGrid A B) * BLOCK_SIZE) = width dC"
    "int (snd (dimGrid A B) * BLOCK_SIZE) = height dC"
    using dimGrid_exact [OF rB(3,4) rA(1,2) tiles(3,1)] shapes by simp_all
  have k0: "launch_k0 (dimGrid A B) (BLOCK_SIZE, BLOCK_SIZE) dA dB dC c3 =
      MatMultHost_loops dA dB dC c3"
    using shapes by (intro launch_k0_eq_host_loops [OF T _ _ _ _ disj grid]) simp_all
  have k1: "launch_k1 (dimGrid A B) (BLOCK_SIZE, BLOCK_SIZE) (scratch s) dA dB dC c3 =
      launch_k0 (dimGrid A B) (BLOCK_SIZE, BLOCK_SIZE) dA dB dC c3"
    using shapes rA tiles grid
    by (intro launch_k1_eq_launch_k0 [OF T _ _ _ _ _ disj]) simp_all
  have c4: "c4 = MatMultHost_loops dA dB dC c3"
    by (simp add: c4_def dimBlock_def k0 k1)
  \<comment> \<open>an element of the device result\<close>
  have el: "c4 (pC + (r * width C + c)) =
      MatMultElement (A\<lparr>stride := width A\<rparr>) (B\<lparr>stride := width B\<rparr>) r c h"
    if rc: "0 \<le> r" "r < height C" "0 \<le> c" "c < width C" for r c
  proof -
    have "c4 (elements dC + (r * stride dC + c)) = MatMultElement dA dB r c c3"
      unfolding c4 using shapes disj rc by (intro MatMultHost_loops_at) simp_all
    also have "\<dots> = MatMultElement (A\<lparr>stride := width A\<rparr>) (B\<lparr>stride := width B\<rparr>) r c h"
    proof (rule MatMultElement_cong)
      fix k :: int assume k: "0 \<le> k" "k < width dA"
      from index_bounds [of r "height A" k "width A"] rc k shapes
      have "c3 (p + (r * width A + k)) = h (elements A + (r * width A + k))"
        by (intro stA) simp_all
      then show "c3 (elements dA + (r * stride dA + k)) =
          h (elements (A\<lparr>stride := width A\<rparr>) + (r * stride (A\<lparr>stride := width A\<rparr>) + k))"
        by simp
      from index_bounds [of k "height B" c "width B"] rc k shapes
      have "c3 (pB + (k * width B + c)) = h (elements B + (k * width B + c))"
        by (intro stB) simp_all
      then show "c3 (elements dB + (k * stride dB + c)) =
          h (elements (B\<lparr>stride := width B\<rparr>) + (k * stride (B\<lparr>stride := width B\<rparr>) + c))"
        by simp
    qed simp
    finally show ?thesis by simp
  qed
  have at: "cell (host s1) (elements C + (r * width C + c)) =
      MatMultElement (A\<lparr>stride := width A\<rparr>) (B\<lparr>stride := width B\<rparr>) r c h"
    if rc: "0 \<le> r" "r < height C" "0 \<le> c" "c < width C" for r c
    using index_bounds [OF rc] el [OF rc] pos
    by (simp add: hc memcpy_cells_def nC)
  have other: "cell (host s1) a = h a"
    if "\<not> (elements C \<le> a \<and> a < elements C + height C * width C)" for a
    using that pos by (auto simp: hc memcpy_cells_def nC)
  show ?thesis
    using run at other rest unfolding h_def by blast
qed

lemma cells_whole:
  assumes "whole_matrix X"
  shows "cells X = {elements X..<elements X + height X * width X}"
proof
  show "cells X \<subseteq> {elements X..<elements X + height X * width X}"
    using assms by (intro cells_whole_subset) (simp add: whole_matrix_def)
  show "{elements X..<elements X + height X * width X} \<subseteq> cells X"
  proof
    fix a assume "a \<in> {elements X..<elements X + height X * width X}"
    then have "0 \<le> a - elements X" "a - elements X < height X * width X" by simp_all
    moreover have "0 \<le> width X"
      using assms by (simp add: whole_matrix_def sized_matrix_def)
    ultimately obtain r c where rc: "0 \<le> r" "r < height X" "0 \<le> c" "c < width X"
      and "a - elements X = r * width X + c"
      by (rule index_decompose)
    then have "a = elements X + (r * stride X + c)"
      using assms by (simp add: whole_matrix_def)
    then show "a \<in> cells X" using rc by (auto simp: cells_eq)
  qed
qed

lemma device_result:
  fixes s :: "('a::{zero,plus,times}) machine"
    and A :: "'m Matrix_scheme" and B :: "'n Matrix_scheme" and C :: "'k Matrix_scheme"
  assumes whole: "whole_matrix A" "whole_matrix B" "whole_matrix C"
    and shapes: "width A = height B" "height A = height C" "width B = width C"
    and tiles: "int BLOCK_SIZE dvd height A" "int BLOCK_SIZE dvd width A"
      "int BLOCK_SIZE dvd width B"
  shows "\<exists>s1. MatMultGPU A B C optimized s = Return s1 \<and>
    (\<forall>r c. 0 \<le> r \<and> r < height C \<and> 0 \<le> c \<and> c < width C \<longrightarrow>
       cell (host s1) (elements C + (r * stride C + c)) = MatMultElement A B r c (cell (host s))) \<and>
    (\<forall>a. a \<notin> cells C \<longrightarrow> cell (host s1) a = cell (host s) a) \<and>
    brk (host s1) = brk (host s) \<and> live (host s1) = live (host s) \<and>
    scratch s1 = scratch s"
proof -
  have sA: "A\<lparr>stride := width A\<rparr> = A" and sB: "B\<lparr>stride := width B\<rparr> = B"
    and sC: "stride C = width C"
    using whole by (simp_all add: whole_matrix_def)
  have sized: "sized_matrix A" "sized_matrix B" "sized_matrix C"
    using whole by (simp_all add: whole_matrix_def)
  show ?thesis
    using device_result_contiguous [OF sized shapes tiles, of optimized s]
    unfolding sA sB sC cells_whole [OF whole(3)] by simp
qed

lemma MatMultHost_at:
  fixes s :: "('a::{zero,plus,times}) machine"
  assumes "width A = height B" "height A = height C" "width B = width C"
    and "width C \<le> stride C" and "cells C \<inter> cells A = {}" and "cells C \<inter> cells B = {}"
  shows "\<exists>s2. MatMultHost A B C s = Return s2 \<and>
    (\<forall>r c. 0 \<le> r \<and> r < height C \<and> 0 \<le> c \<and> c < width C \<longrightarrow>
       cell (host s2) (elements C + (r * stride C + c)) = MatMultElement A B r c (cell (host s))) \<and>
    (\<forall>a. a \<notin> cells C \<longrightarrow> cell (host s2) a = cell (host s) a)"
  using MatMultHost_loops_at [OF assms, of _ _ "cell (host s)"]
    MatMultHost_loops_other [OF assms(2,3), of _ "cell (host s)"]
  by (simp add: MatMultHost_Return [OF assms(1-3)])

lemma gpu_host_same_cells:
  fixes s :: "('a::{zero,plus,times}) machine"
  assumes whole: "whole_matrix A" "whole_matrix B" "whole_matrix C"
    and shapes: "width A = height B" "height A = height C" "width B = width C"
    and tiles: "int BLOCK_SIZE dvd height A" "int BLOCK_SIZE dvd width A"
      "int BLOCK_SIZE dvd width B"
    and disj: "cells C \<inter> cells A = {}" "cells C \<inter> cells B = {}"
  shows "\<exists>s1 s2. MatMultGPU A B C optimized s = Return s1 \<and>
    MatMultHost A B C s = Return s2 \<and> cell (host s1) = cell (host s2)"
proof -
  have stride: "width C \<le> stride C"
    using whole(3) by (simp add: whole_matrix_def)
  from device_result [OF whole shapes tiles, of optimized s]
  obtain s1 where g: "MatMultGPU A B C optimized s = Return s1"
    and g_at: "\<And>r c. 0 \<le> r \<Longrightarrow> r < height C \<Longrightarrow> 0 \<le> c \<Longrightarrow> c < width C \<Longrightarrow>
       cell (host s1) (elements C + (r * stride C + c)) = MatMultElement A B r c (cell (host s))"
    and g_other: "\<And>a. a \<notin> cells C \<Longrightarrow> cell (host s1) a = cell (host s) a"
    by blast
  from MatMultHost_at [OF shapes stride disj, of s]
  obtain s2 where h: "MatMultHost A B C s = Return s2"
    and h_at: "\<And>r c. 0 \<le> r \<Longrightarrow> r < height C \<Longrightarrow> 0 \<le> c \<Longrightarrow> c < width C \<Longrightarrow>
       cell (host s2) (elements C + (r * stride C + c)) = MatMultElement A B r c (cell (host s))"
    and h_other: "\<And>a. a \<notin> cells C \<Longrightarrow> cell (host s2) a = cell (host s) a"
    by blast
  have "cell (host s1) a = cell (host s2) a" for a
  proof (cases "a \<in> cells C")
    case True
    then obtain r c where "0 \<le> r" "r < height C" "0 \<le> c" "c < width C"
      "a = elements C + (r * stride C + c)"
      by (auto simp: cells_eq)
    then show ?thesis by (simp add: g_at h_at)
  next
    case False
    then show ?thesis by (simp add: g_other h_other)
  qed
  then have "cell (host s1) = cell (host s2)" by (rule ext)
  with g h show ?thesis by blast
qed

text \<open>
  C1, for whole matrices in separate buffers. For whole matrices A, B and C
  (\<open>stride = width\<close> and \<open>size = height * width * sizeof(float)\<close> with no overflow, as
  \<open>MatInitHost\<close> makes them) of compatible shapes, whose dimensions are multiples of
  \<open>BLOCK_SIZE\<close>, and with the cells of C disjoint from those of A and of B,
  \<open>MatMultGPU\<close> with either kernel leaves host memory exactly as \<open>MatMultHost\<close> does,
  in whatever arithmetic the elements have: both kernels add the same products in the
  same order as the host loop. So at no element of C does the difference of the two
  results exceed a tolerance \<open>tol\<close> that the difference of a value with itself never
  exceeds (the test \<open>fabs(a - b) > tol\<close> of the code, false for \<open>a = b\<close>). The device
  is taken to compute with the operations of the host, a product and a sum being two
  operations as \<open>MatMultElement\<close> writes them, and to accept the grid of the launch.
\<close>

theorem device_matches_host:
  fixes s :: "('a::{zero,plus,times,minus,abs,ord}) machine"
  assumes whole: "whole_matrix A" "whole_matrix B" "whole_matrix C"
    and shapes: "width A = height B" "height A = height C" "width B = width C"
    and tiles: "int BLOCK_SIZE dvd height A" "int BLOCK_SIZE dvd width A"
      "int BLOCK_SIZE dvd width B"
    and disj: "cells C \<inter> cells A = {}" "cells C \<inter> cells B = {}"
    and tol: "\<And>x :: 'a. \<not> tol < \<bar>x - x\<bar>"
  shows "\<exists>s1 s2. MatMultGPU A B C optimized s = Return s1 \<and>
    MatMultHost A B C s = Return s2 \<and>
    cell (host s1) = cell (host s2) \<and>
    (\<forall>r c. \<not> tol < \<bar>GetElement C r c (cell (host s1)) - GetElement C r c (cell (host s2))\<bar>)"
proof -
  from gpu_host_same_cells [OF whole shapes tiles disj, of optimized s]
  obtain s1 s2 where "MatMultGPU A B C optimized s = Return s1"
    "MatMultHost A B C s = Return s2" "cell (host s1) = cell (host s2)"
    by blast
  with tol show ?thesis by auto
qed

section \<open>Concrete runs\<close>

lemma MatInit_size_wraps:
  "size_bytes (MatInit 50000 50000) = 18446744066529682432"
  "size_bytes (MatInit 65536 65536) = 0"
  "size_bytes (MatInit_inline 50000 50000) = 18446744066529682432"
  "size_bytes (MatInit_inline 65536 65536) = 0"
  by (simp_all add: MatInit_def MatInit_inline_def int32_def sizeof_float_def)

lemma test_whole:
  "whole_matrix X2" "whole_matrix Y2" "whole_matrix Z2" "whole_matrix Y1_2"
  "whole_matrix X4" "whole_matrix Y4" "whole_matrix Z4" "whole_matrix W4"
  by (simp_all add: whole_matrix_def sized_matrix_def X2_def Y2_def Z2_def Y1_2_def
      X4_def Y4_def Z4_def W4_def MatInit_def sizeof_float_def int32_def)

lemma test_cells:
  "cells X2 = {10..<14}" "cells Y2 = {14..<18}" "cells Z2 = {18..<22}" "cells Y1_2 = {22..<26}"
  "cells X4 = {10..<26}" "cells Y4 = {26..<42}" "cells Z4 = {42..<58}" "cells W4 = {58..<74}"
  by (simp_all add: cells_whole test_whole)
    (simp_all add: X2_def Y2_def Z2_def Y1_2_def X4_def Y4_def Z4_def W4_def MatInit_def)

lemma test_V4: "V4 = \<lparr>width = 4, height = 4, size_bytes = 64, stride = 8, elements = 10\<rparr>"
  by (simp add: V4_def P8_def GetSubMatrix_def MatInit_def sizeof_float_def int32_def)

lemma test_sized_V4: "sized_matrix V4"
  by (simp add: test_V4 sized_matrix_def sizeof_float_def)

lemma eval_simps:
  "iota 4 = [0, 1, 2, 3]" "iota 2 = [0, 1]"
  by (simp_all add: iota_def upt_rec)

theorem device_matches_host_witness:
  "whole_matrix X4 \<and> whole_matrix Y4 \<and> whole_matrix Z4 \<and>
   width X4 = height Y4 \<and> height X4 = height Z4 \<and> width Y4 = width Z4 \<and>
   int BLOCK_SIZE dvd height X4 \<and> int BLOCK_SIZE dvd width X4 \<and> int BLOCK_SIZE dvd width Y4 \<and>
   cells Z4 \<inter> cells X4 = {} \<and> cells Z4 \<inter> cells Y4 = {} \<and>
   (\<forall>x :: int. \<not> 0 < \<bar>x - x\<bar>) \<and>
   (\<exists>s1 s2. MatMultGPU X4 Y4 Z4 True test_machine = Return s1 \<and>
      MatMultHost X4 Y4 Z4 test_machine = Return s2 \<and>
      cell (host s1) = cell (host s2) \<and>
      (\<forall>r c. \<not> 0 < \<bar>GetElement Z4 r c (cell (host s1)) - GetElement Z4 r c (cell (host s2))\<bar>))"
proof -
  have shapes: "width X4 = height Y4" "height X4 = height Z4" "width Y4 = width Z4"
    and tiles: "int BLOCK_SIZE dvd height X4" "int BLOCK_SIZE dvd width X4"
      "int BLOCK_SIZE dvd width Y4"
    by (simp_all add: X4_def Y4_def Z4_def MatInit_def BLOCK_SIZE_def)
  have disj: "cells Z4 \<inter> cells X4 = {}" "cells Z4 \<inter> cells Y4 = {}"
    by (simp_all add: test_cells)
  have tol: "\<not> 0 < \<bar>x - x\<bar>" for x :: int
    by simp
  from device_matches_host [OF test_whole(5,6,7) shapes tiles disj tol, of True test_machine]
  have "\<exists>s1 s2. MatMultGPU X4 Y4 Z4 True test_machine = Return s1 \<and>
      MatMultHost X4 Y4 Z4 test_machine = Return s2 \<and>
      cell (host s1) = cell (host s2) \<and>
      (\<forall>r c. \<not> 0 < \<bar>GetElement Z4 r c (cell (host s1)) - GetElement Z4 r c (cell (host s2))\<bar>)"
    by blast
  then show ?thesis
    using test_whole shapes tiles disj tol by blast
qed

theorem device_differs_from_host_counterexample:
  "width X4 = height Y4 \<and> height X4 = height X4 \<and> width Y4 = width X4 \<and>
   int BLOCK_SIZE dvd height X4 \<and> int BLOCK_SIZE dvd width X4 \<and> int BLOCK_SIZE dvd width Y4 \<and>
   (\<exists>s0 s1 s2.
      MatMultGPU X4 Y4 X4 False test_machine = Return s0 \<and>
      MatMultGPU X4 Y4 X4 True test_machine = Return s1 \<and>
      MatMultHost X4 Y4 X4 test_machine = Return s2 \<and>
      GetElement X4 0 1 (cell (host s0)) = 1538 \<and>
      GetElement X4 0 1 (cell (host s1)) = 1538 \<and>
      GetElement X4 0 1 (cell (host s2)) = 41552) \<and>
   width V4 = height Z4 \<and> height V4 = height W4 \<and> width Z4 = width W4 \<and>
   int BLOCK_SIZE dvd height V4 \<and> int BLOCK_SIZE dvd width V4 \<and> int BLOCK_SIZE dvd width Z4 \<and>
   cells W4 \<inter> cells V4 = {} \<and> cells W4 \<inter> cells Z4 = {} \<and> cells V4 \<inter> cells Z4 = {} \<and>
   (\<exists>s0 s1 s2.
      MatMultGPU V4 Z4 W4 False test_machine = Return s0 \<and>
      MatMultGPU V4 Z4 W4 True test_machine = Return s1 \<and>
      MatMultHost V4 Z4 W4 test_machine = Return s2 \<and>
      GetElement W4 1 0 (cell (host s0)) = 2996 \<and>
      GetElement W4 1 0 (cell (host s1)) = 2996 \<and>
      GetElement W4 1 0 (cell (host s2)) = 3764)"
proof -
  have h0: "cell (host test_machine) = (\<lambda>a. a)"
    by (simp add: test_machine_def)
  \<comment> \<open>in place: C is A\<close>
  have shapes: "width X4 = height Y4" "height X4 = height X4" "width Y4 = width X4"
    and tiles: "int BLOCK_SIZE dvd height X4" "int BLOCK_SIZE dvd width X4"
      "int BLOCK_SIZE dvd width Y4"
    by (simp_all add: X4_def Y4_def MatInit_def BLOCK_SIZE_def)
  have dot: "MatMultElement X4 Y4 0 1 (\<lambda>a. a) = (1538 :: int)"
    by (simp add: MatMultElement_def for_int_def eval_simps X4_def Y4_def MatInit_def)
  have g: "\<exists>s1. MatMultGPU X4 Y4 X4 optimized test_machine = Return s1 \<and>
      GetElement X4 0 1 (cell (host s1)) = 1538" for optimized
  proof -
    from device_result [OF test_whole(5,6,5) shapes tiles, of optimized test_machine]
    obtain s1 where run: "MatMultGPU X4 Y4 X4 optimized test_machine = Return s1"
      and at: "\<And>r c. 0 \<le> r \<Longrightarrow> r < height X4 \<Longrightarrow> 0 \<le> c \<Longrightarrow> c < width X4 \<Longrightarrow>
        cell (host s1) (elements X4 + (r * stride X4 + c)) =
          MatMultElement X4 Y4 r c (cell (host test_machine))"
      by blast
    have "cell (host s1) (elements X4 + (0 * stride X4 + 1)) =
        MatMultElement X4 Y4 0 1 (cell (host test_machine))"
      by (rule at) (simp_all add: X4_def MatInit_def)
    then have "GetElement X4 0 1 (cell (host s1)) = 1538"
      by (simp add: GetElement_def MatGetElement_def h0 dot)
    with run show ?thesis by blast
  qed
  have hst: "MatMultHost_loops X4 Y4 X4 (\<lambda>a. a) 11 = (41552 :: int)"
    by (simp add: MatMultHost_loops_def MatMultElement_def for_int_def eval_simps X4_def Y4_def
        MatInit_def SetElement_def MatSetElement_def)
  have h: "\<exists>s2. MatMultHost X4 Y4 X4 test_machine = Return s2 \<and>
      GetElement X4 0 1 (cell (host s2)) = 41552"
    using hst
    by (simp add: MatMultHost_Return [OF shapes] GetElement_def MatGetElement_def h0)
      (simp add: X4_def MatInit_def)
  \<comment> \<open>a strided operand: A is a sub-view\<close>
  have shapes': "width V4 = height Z4" "height V4 = height W4" "width Z4 = width W4"
    and tiles': "int BLOCK_SIZE dvd height V4" "int BLOCK_SIZE dvd width V4"
      "int BLOCK_SIZE dvd width Z4"
    by (simp_all add: test_V4 Z4_def W4_def MatInit_def BLOCK_SIZE_def)
  have cV: "cells V4 \<subseteq> {10..<42}"
    by (auto simp: cells_eq test_V4)
  have disj': "cells W4 \<inter> cells V4 = {}" "cells W4 \<inter> cells Z4 = {}" "cells V4 \<inter> cells Z4 = {}"
    using cV by (auto simp: test_cells)
  have sized: "sized_matrix V4" "sized_matrix Z4" "sized_matrix W4"
    using test_whole by (simp_all add: test_sized_V4 whole_matrix_def)
  have dot': "MatMultElement (V4\<lparr>stride := width V4\<rparr>) (Z4\<lparr>stride := width Z4\<rparr>) 1 0 (\<lambda>a. a)
      = (2996 :: int)"
    by (simp add: MatMultElement_def for_int_def eval_simps test_V4 Z4_def MatInit_def)
  have g': "\<exists>s1. MatMultGPU V4 Z4 W4 optimized test_machine = Return s1 \<and>
      GetElement W4 1 0 (cell (host s1)) = 2996" for optimized
  proof -
    from device_result_contiguous [OF sized shapes' tiles', of optimized test_machine]
    obtain s1 where run: "MatMultGPU V4 Z4 W4 optimized test_machine = Return s1"
      and at: "\<And>r c. 0 \<le> r \<Longrightarrow> r < height W4 \<Longrightarrow> 0 \<le> c \<Longrightarrow> c < width W4 \<Longrightarrow>
        cell (host s1) (elements W4 + (r * width W4 + c)) =
          MatMultElement (V4\<lparr>stride := width V4\<rparr>) (Z4\<lparr>stride := width Z4\<rparr>) r c
            (cell (host test_machine))"
      by blast
    have "cell (host s1) (elements W4 + (1 * width W4 + 0)) =
        MatMultElement (V4\<lparr>stride := width V4\<rparr>) (Z4\<lparr>stride := width Z4\<rparr>) 1 0
          (cell (host test_machine))"
      by (rule at) (simp_all add: W4_def MatInit_def)
    then have "GetElement W4 1 0 (cell (host s1)) = 2996"
      by (simp add: GetElement_def MatGetElement_def h0 dot') (simp add: W4_def MatInit_def)
    with run show ?thesis by blast
  qed
  have hst': "MatMultHost_loops V4 Z4 W4 (\<lambda>a. a) 62 = (3764 :: int)"
    by (simp add: MatMultHost_loops_def MatMultElement_def for_int_def eval_simps test_V4 Z4_def
        W4_def MatInit_def SetElement_def MatSetElement_def)
  have h': "\<exists>s2. MatMultHost V4 Z4 W4 test_machine = Return s2 \<and>
      GetElement W4 1 0 (cell (host s2)) = 3764"
    using hst'
    by (simp add: MatMultHost_Return [OF shapes'] GetElement_def MatGetElement_def h0)
      (simp add: W4_def MatInit_def)
  show ?thesis
    using shapes tiles g [of False] g [of True] h shapes' tiles' disj' g' [of False] g' [of True] h'
    by blast
qed

lemma test_shapes2:
  "width X2 = height Y2" "height X2 = height Z2" "width Y2 = width Z2"
  "height X2 = width X2" "height Y2 = width X2" "height Z2 = width X2" "width Z2 = width Y2"
  "height Y1_2 = width X2" "width Y1_2 = width Y2"
  "width X2 \<le> stride X2" "width Z2 \<le> stride Z2" "width Y1_2 \<le> stride Y1_2"
  by (simp_all add: X2_def Y2_def Z2_def Y1_2_def MatInit_def)

theorem shape_assertions_witness:
  "width X2 \<noteq> height X4 \<and>
   MatMultHost X2 X4 Z2 test_machine = AssertFail test_machine \<and>
   MatMultGPU X2 X4 Z2 True test_machine = AssertFail test_machine \<and>
   width X2 = height Y2 \<and> height X2 = height Z2 \<and> width Y2 = width Z2 \<and>
   (\<exists>s'. MatMultHost X2 Y2 Z2 test_machine = Return s') \<and>
   (\<exists>s'. MatMultGPU X2 Y2 Z2 False test_machine = Return s')"
proof -
  have ne: "width X2 \<noteq> height X4"
    by (simp add: X2_def X4_def MatInit_def)
  show ?thesis
    using shape_assertions [of X2 X4 Z2 test_machine True]
      shape_assertions [of X2 Y2 Z2 test_machine False] ne test_shapes2(1-3)
    by simp
qed

theorem MatEqual_spec_witness:
  "height X2 \<noteq> height X4 \<and> \<not> MatEqual X2 X4 0 (\<lambda>a. a :: int) \<and>
   height X2 = height Y2 \<and> width X2 = width Y2 \<and>
   MatEqual X2 Y2 4 (\<lambda>a. a :: int) \<and> \<not> MatEqual X2 Y2 3 (\<lambda>a. a :: int)"
proof -
  have ne: "height X2 \<noteq> height X4" and eq: "height X2 = height Y2" "width X2 = width Y2"
    by (simp_all add: X2_def X4_def Y2_def MatInit_def)
  have d: "\<bar>GetElement X2 r c (\<lambda>a. a :: int) - GetElement Y2 r c (\<lambda>a. a)\<bar> = 4" for r c
    by (simp add: GetElement_def MatGetElement_def X2_def Y2_def MatInit_def)
  have in_range: "(0::int) \<in> {0..<height X2}" "(0::int) \<in> {0..<width X2}"
    by (simp_all add: X2_def MatInit_def)
  have "MatEqual X2 Y2 4 (\<lambda>a. a :: int)"
    using MatEqual_spec [of X2 Y2 4 "\<lambda>a. a :: int" 4 "\<lambda>a. a :: int"] eq by (simp add: d)
  moreover have "\<not> MatEqual X2 Y2 3 (\<lambda>a. a :: int)"
    using MatEqual_spec [of X2 Y2 3 "\<lambda>a. a :: int" 3 "\<lambda>a. a :: int"] eq in_range
    by (auto simp: d)
  moreover have "\<not> MatEqual X2 X4 0 (\<lambda>a. a :: int)"
    using MatEqual_spec [of X2 X4 0 "\<lambda>a. a :: int" 0 "\<lambda>a. a :: int"] ne by simp
  ultimately show ?thesis using ne eq by simp
qed


theorem MatMultHost_frame_witness:
  "width X2 = height Y2 \<and> height X2 = height Z2 \<and> width Y2 = width Z2 \<and>
   cells X2 \<inter> cells Z2 = {} \<and> cells Y2 \<inter> cells Z2 = {} \<and>
   (\<exists>s'. MatMultHost X2 Y2 Z2 test_machine = Return s' \<and>
      cell (host s') 10 = 10 \<and> cell (host s') 17 = 17 \<and> cell (host s') 22 = 22 \<and>
      brk (host s') = 100 \<and> device s' = device test_machine)"
proof -
  have disj: "cells X2 \<inter> cells Z2 = {}" "cells Y2 \<inter> cells Z2 = {}"
    by (simp_all add: test_cells)
  from MatMultHost_frame [OF test_shapes2(1-3) disj, of test_machine]
  obtain s' where run: "MatMultHost X2 Y2 Z2 test_machine = Return s'"
    and fr: "\<And>a. a \<notin> cells Z2 \<Longrightarrow> cell (host s') a = cell (host test_machine) a"
    and rest: "brk (host s') = brk (host test_machine)" "device s' = device test_machine"
    by blast
  have "cell (host s') 10 = 10" "cell (host s') 17 = 17" "cell (host s') 22 = 22"
    by (simp_all add: fr test_cells test_machine_def)
  moreover have "brk (host s') = 100"
    by (simp add: rest test_machine_def)
  ultimately show ?thesis
    using run rest(2) test_shapes2(1-3) disj by blast
qed

theorem multiplication_is_dot_product_witness:
  "width X2 = height Y2 \<and> height X2 = height Z2 \<and> width Y2 = width Z2 \<and>
   width Z2 \<le> stride Z2 \<and> cells Z2 \<inter> cells X2 = {} \<and> cells Z2 \<inter> cells Y2 = {} \<and>
   (\<exists>s'. MatMultHost X2 Y2 Z2 test_machine = Return s' \<and>
      GetElement Z2 0 1 (cell (host s')) = 337) \<and>
   GetElement Z2 0 1 (MatMult_k0 X2 Y2 Z2 (0, 0) (2, 2) (1, 0) (\<lambda>a. a :: int)) = 337 \<and>
   left_sum (\<lambda>k. k * k) 3 = (\<Sum>k\<in>{0..<3}. k * k :: int)"
proof -
  have disj: "cells Z2 \<inter> cells X2 = {}" "cells Z2 \<inter> cells Y2 = {}"
    by (simp_all add: test_cells)
  have h0: "cell (host test_machine) = (\<lambda>a. a)"
    by (simp add: test_machine_def)
  have dot: "left_sum (\<lambda>k. GetElement X2 0 k (\<lambda>a. a :: int) * GetElement Y2 k 1 (\<lambda>a. a))
      (nat (width X2)) = 337"
    by (simp add: GetElement_def MatGetElement_def X2_def Y2_def MatInit_def numeral_2_eq_2)
  have we: "worker_element (0, 0) (2, 2) (1, 0) = (0, 1)"
    by (simp add: worker_element_def)
  have rng: "(0::int) \<le> 0 \<and> 0 < height Z2 \<and> (0::int) \<le> 1 \<and> 1 < width Z2"
    by (simp add: Z2_def MatInit_def)
  note inst = multiplication_is_dot_product [OF test_shapes2(1-3) test_shapes2(11) disj,
      where s = test_machine and blockIdx = "(0, 0)" and blockDim = "(2, 2)"
        and threadIdx = "(1, 0)" and dC = Z2 and dA = X2 and dB = Y2 and h = "\<lambda>a. a"
        and g = "\<lambda>k. k * k :: int" and n = 3]
  from inst obtain s' where run: "MatMultHost X2 Y2 Z2 test_machine = Return s'"
    and els: "\<And>r c. 0 \<le> r \<and> r < height Z2 \<and> 0 \<le> c \<and> c < width Z2 \<Longrightarrow>
         GetElement Z2 r c (cell (host s')) =
           left_sum (\<lambda>k. GetElement X2 r k (cell (host test_machine)) *
                          GetElement Y2 k c (cell (host test_machine))) (nat (width X2))"
    by blast
  have host: "GetElement Z2 0 1 (cell (host s')) = 337"
    using els [OF rng] by (simp only: h0 dot)
  from inst have "GetElement Z2 0 1 (MatMult_k0 X2 Y2 Z2 (0, 0) (2, 2) (1, 0) (\<lambda>a. a :: int)) =
      left_sum (\<lambda>k. GetElement X2 0 k (\<lambda>a. a) * GetElement Y2 k 1 (\<lambda>a. a)) (nat (width X2))"
    by (simp only: we prod.case)
  then have worker: "GetElement Z2 0 1 (MatMult_k0 X2 Y2 Z2 (0, 0) (2, 2) (1, 0) (\<lambda>a. a :: int)) = 337"
    by (simp only: dot)
  from inst have sum: "left_sum (\<lambda>k. k * k) 3 = (\<Sum>k\<in>{0..<3}. k * k :: int)"
    by simp
  show ?thesis
    using run host worker sum test_shapes2(1-3,11) disj by blast
qed

theorem in_place_product_counterexample:
  "width X2 = height Y2 \<and> height X2 = height X2 \<and> width Y2 = width X2 \<and>
   (\<exists>s'. MatMultHost X2 Y2 X2 test_machine = Return s' \<and>
      GetElement X2 0 1 (cell (host s')) = 4927 \<and>
      (\<Sum>k\<in>{0..<width X2}. GetElement X2 0 k (cell (host test_machine)) *
                                 GetElement Y2 k 1 (cell (host test_machine))) = 337 \<and>
      (\<Sum>k\<in>{0..<width X2}. GetElement X2 0 k (cell (host s')) *
                                 GetElement Y2 k 1 (cell (host s'))) = 88499)"
proof -
  have shapes: "width X2 = height Y2" "height X2 = height X2" "width Y2 = width X2"
    by (simp_all add: X2_def Y2_def MatInit_def)
  have h0: "cell (host test_machine) = (\<lambda>a. a)"
    by (simp add: test_machine_def)
  define h1 where "h1 = MatMultHost_loops X2 Y2 X2 (\<lambda>a. a :: int)"
  have cells1: "h1 10 = 316" "h1 11 = 4927" "h1 15 = 15" "h1 17 = 17"
    unfolding h1_def
    by (simp_all add: MatMultHost_loops_def MatMultElement_def for_int_def eval_simps X2_def
        Y2_def MatInit_def SetElement_def MatSetElement_def)
  have before: "(\<Sum>k\<in>{0..<width X2}. GetElement X2 0 k (\<lambda>a. a :: int) * GetElement Y2 k 1 (\<lambda>a. a))
      = 337"
    unfolding MatMultElement_sum [symmetric]
    by (simp add: MatMultElement_def for_int_def eval_simps X2_def Y2_def MatInit_def)
  have after: "(\<Sum>k\<in>{0..<width X2}. GetElement X2 0 k h1 * GetElement Y2 k 1 h1) = 88499"
    unfolding MatMultElement_sum [symmetric]
    by (simp add: MatMultElement_def for_int_def eval_simps X2_def Y2_def MatInit_def cells1)
  have el: "GetElement X2 0 1 h1 = 4927"
    by (simp add: GetElement_def MatGetElement_def X2_def MatInit_def cells1)
  have "MatMultHost X2 Y2 X2 test_machine =
      Return (test_machine\<lparr>host := (host test_machine)\<lparr>cell := h1\<rparr>\<rparr>)"
    by (simp add: MatMultHost_Return [OF shapes] h0 h1_def)
  then show ?thesis
    using shapes el before after by (simp add: h0)
qed


end
